theory Spec2Isabelle
  imports Complex_Main "HOL-Library.Word" "HOL-Library.Signed_Division"
begin

unbundle bit_operations_syntax

section \<open>Values of the host language\<close>

text \<open>
  The geometry code computes with JavaScript numbers. They are modelled as the real
  numbers: rounding, overflow to Infinity and NaN are outside the model. Wherever the
  source guards a division (\<open>Math.sqrt(\<dots>) || 1\<close>) the guard is a branch of the model,
  and wherever the source reads an array element or a property that may be missing, the
  read returns an option and the TypeError that JavaScript would raise is a value of
  \<open>js_error\<close>.

  Strings are character lists. A form field holds a primitive value; the fragment needed
  here is strings, integral numbers, booleans and \<open>null\<close> (a missing field, JavaScript's
  \<open>undefined\<close>, is \<open>None\<close> at the place where the field is read).
\<close>

datatype js_error = TypeError | LibraryError

datatype jsval = JStr string | JInt int | JBool bool | JNull

type_synonym point = "real \<times> real"

section \<open>Jersey silhouette (geometry.js, jerseyPoints)\<close>

definition jerseyPoints :: "jsval \<Rightarrow> point list" where
  "jerseyPoints style =
    (let W = 100;
         H = 120;
         shoulderDrop = (if style = JStr ''Retro'' then 18 else 14);
         armholeWidth = (if style = JStr ''College'' then 22 else 18);
         armholeDepth = (if style = JStr ''Retro'' then 30 else 24);
         collarW      = (if style = JStr ''NBA Modern'' then 20 else 16);
         collarDepth  = (if style = JStr ''NBA Modern'' then 12 else 10)
     in [(0, 0),
         (W, 0),
         (W, H - shoulderDrop),
         (W - armholeWidth, H - shoulderDrop),
         (W - armholeWidth, H - armholeDepth),
         (W - armholeWidth, H),
         (W / 2 + collarW, H),
         (W / 2, H - collarDepth),
         (W / 2 - collarW, H),
         (armholeWidth, H),
         (armholeWidth, H - armholeDepth),
         (armholeWidth, H - shoulderDrop),
         (0, H - shoulderDrop)])"

text \<open>
  Orientation of a closed polygon, by the shoelace sum over its edges (the last point is
  joined to the first). With the origin at the bottom left and y pointing up, as the
  source's layout comment fixes it, a negative sum is a clockwise sequence and a
  positive sum a counter-clockwise one.
\<close>

definition cross2 :: "point \<Rightarrow> point \<Rightarrow> real" where
  "cross2 p q = fst p * snd q - fst q * snd p"

fun shoelace_from :: "point \<Rightarrow> point list \<Rightarrow> real" where
  "shoelace_from first [] = 0"
| "shoelace_from first [p] = cross2 p first"
| "shoelace_from first (p # q # ps) = cross2 p q + shoelace_from first (q # ps)"

definition shoelace :: "point list \<Rightarrow> real" where
  "shoelace ps = (case ps of [] \<Rightarrow> 0 | p # _ \<Rightarrow> shoelace_from p ps)"

definition signed_area :: "point list \<Rightarrow> real" where
  "signed_area ps = shoelace ps / 2"

definition clockwise :: "point list \<Rightarrow> bool" where
  "clockwise ps \<longleftrightarrow> signed_area ps < 0"

definition counter_clockwise :: "point list \<Rightarrow> bool" where
  "counter_clockwise ps \<longleftrightarrow> 0 < signed_area ps"

text \<open>The outline that the spec describes, as a function of the five style dimensions
  (shoulder drop, armhole width, armhole depth, collar width, collar depth).\<close>

definition outline_of_dims :: "real \<times> real \<times> real \<times> real \<times> real \<Rightarrow> point list" where
  "outline_of_dims d =
    (case d of (sd, aw, ad, cw, cd) \<Rightarrow>
      [(0, 0), (100, 0), (100, 120 - sd), (100 - aw, 120 - sd), (100 - aw, 120 - ad),
       (100 - aw, 120), (50 + cw, 120), (50, 120 - cd), (50 - cw, 120), (aw, 120),
       (aw, 120 - ad), (aw, 120 - sd), (0, 120 - sd)])"

definition known_style :: "jsval \<Rightarrow> bool" where
  "known_style style \<longleftrightarrow>
     style = JStr ''NBA Modern'' \<or> style = JStr ''College'' \<or> style = JStr ''Retro''"

section \<open>Curve sampler (geometry.js, sampleCubic and sampleQuadratic)\<close>

function sampleCubic_loop ::
  "real \<times> real \<Rightarrow> real \<times> real \<Rightarrow> real \<times> real \<Rightarrow> real \<times> real \<Rightarrow> nat \<Rightarrow> nat \<Rightarrow> point list \<Rightarrow> point list"
where
  "sampleCubic_loop p0 p1 p2 p3 steps i pts =
    (if i \<le> steps then
       (let t = real i / real steps;
            mt = 1 - t;
            x = mt*mt*mt*fst p0 + 3*mt*mt*t*fst p1 + 3*mt*t*t*fst p2 + t*t*t*fst p3;
            y = mt*mt*mt*snd p0 + 3*mt*mt*t*snd p1 + 3*mt*t*t*snd p2 + t*t*t*snd p3
        in sampleCubic_loop p0 p1 p2 p3 steps (Suc i) (pts @ [(x, y)]))
     else pts)"
  by pat_completeness auto
termination
  by (relation "measure (\<lambda>(p0, p1, p2, p3, steps, i, pts). Suc steps - i)") auto

declare sampleCubic_loop.simps [simp del]

definition sampleCubic ::
  "real \<Rightarrow> real \<Rightarrow> real \<Rightarrow> real \<Rightarrow> real \<Rightarrow> real \<Rightarrow> real \<Rightarrow> real \<Rightarrow> nat \<Rightarrow> point list" where
  "sampleCubic x0 y0 x1 y1 x2 y2 x3 y3 steps =
     sampleCubic_loop (x0, y0) (x1, y1) (x2, y2) (x3, y3) steps 1 []"

function sampleQuadratic_loop ::
  "real \<times> real \<Rightarrow> real \<times> real \<Rightarrow> real \<times> real \<Rightarrow> nat \<Rightarrow> nat \<Rightarrow> point list \<Rightarrow> point list"
where
  "sampleQuadratic_loop p0 p1 p2 steps i pts =
    (if i \<le> steps then
       (let t = real i / real steps;
            mt = 1 - t;
            x = mt*mt*fst p0 + 2*mt*t*fst p1 + t*t*fst p2;
            y = mt*mt*snd p0 + 2*mt*t*snd p1 + t*t*snd p2
        in sampleQuadratic_loop p0 p1 p2 steps (Suc i) (pts @ [(x, y)]))
     else pts)"
  by pat_completeness auto
termination
  by (relation "measure (\<lambda>(p0, p1, p2, steps, i, pts). Suc steps - i)") auto

declare sampleQuadratic_loop.simps [simp del]

definition sampleQuadratic ::
  "real \<Rightarrow> real \<Rightarrow> real \<Rightarrow> real \<Rightarrow> real \<Rightarrow> real \<Rightarrow> nat \<Rightarrow> point list" where
  "sampleQuadratic x0 y0 x1 y1 x2 y2 steps =
     sampleQuadratic_loop (x0, y0) (x1, y1) (x2, y2) steps 1 []"

definition BEZIER_STEPS :: nat where
  "BEZIER_STEPS = 8"

text \<open>
  The standard parametric evaluation of a Bezier segment, by repeated linear
  interpolation between neighbouring control points (de Casteljau).
\<close>

definition lerp :: "real \<Rightarrow> point \<Rightarrow> point \<Rightarrow> point" where
  "lerp t p q = ((1 - t) * fst p + t * fst q, (1 - t) * snd p + t * snd q)"

definition bezier2 :: "point \<Rightarrow> point \<Rightarrow> point \<Rightarrow> real \<Rightarrow> point" where
  "bezier2 p0 p1 p2 t = lerp t (lerp t p0 p1) (lerp t p1 p2)"

definition bezier3 :: "point \<Rightarrow> point \<Rightarrow> point \<Rightarrow> point \<Rightarrow> real \<Rightarrow> point" where
  "bezier3 p0 p1 p2 p3 t = lerp t (bezier2 p0 p1 p2 t) (bezier2 p1 p2 p3 t)"

section \<open>Glyph outline extractor (geometry.js, pathToContours)\<close>

text \<open>The commands of an opentype.js path: move, line, cubic curve, quadratic curve, close.\<close>

datatype cmd =
    M real real
  | L real real
  | C real real real real real real
  | Q real real real real
  | Z

record contour_state =
  contours :: "point list list"
  current :: "point list"
  cx :: real
  cy :: real

fun pathToContours_step :: "contour_state \<Rightarrow> cmd \<Rightarrow> contour_state" where
  "pathToContours_step s (M x y) =
     \<lparr>contours = (if length (current s) > 2 then contours s @ [current s] else contours s),
      current = [(x, y)], cx = x, cy = y\<rparr>"
| "pathToContours_step s (L x y) =
     s\<lparr>current := current s @ [(x, y)], cx := x, cy := y\<rparr>"
| "pathToContours_step s (C x1 y1 x2 y2 x y) =
     (let pts = sampleCubic (cx s) (cy s) x1 y1 x2 y2 x y BEZIER_STEPS
      in s\<lparr>current := current s @ pts, cx := x, cy := y\<rparr>)"
| "pathToContours_step s (Q x1 y1 x y) =
     (let pts = sampleQuadratic (cx s) (cy s) x1 y1 x y BEZIER_STEPS
      in s\<lparr>current := current s @ pts, cx := x, cy := y\<rparr>)"
| "pathToContours_step s Z =
     s\<lparr>contours := (if length (current s) > 2 then contours s @ [current s] else contours s),
       current := []\<rparr>"

fun pathToContours_loop :: "contour_state \<Rightarrow> cmd list \<Rightarrow> contour_state" where
  "pathToContours_loop s [] = s"
| "pathToContours_loop s (c # cs) = pathToContours_loop (pathToContours_step s c) cs"

definition pathToContours :: "cmd list \<Rightarrow> real \<Rightarrow> point list list" where
  "pathToContours commands scale =
    (let s = pathToContours_loop \<lparr>contours = [], current = [], cx = 0, cy = 0\<rparr> commands
     in if length (current s) > 2 then contours s @ [current s] else contours s)"

text \<open>
  Every buffer that the loop lets go of (at a move, at a close and at the end of the
  path), whatever its length: the same loop without the length tests. It serves to
  state which buffers \<open>pathToContours\<close> keeps and which it drops.
\<close>

fun flush_step :: "contour_state \<Rightarrow> cmd \<Rightarrow> contour_state" where
  "flush_step s (M x y) =
     \<lparr>contours = contours s @ [current s], current = [(x, y)], cx = x, cy = y\<rparr>"
| "flush_step s Z = s\<lparr>contours := contours s @ [current s], current := []\<rparr>"
| "flush_step s c = pathToContours_step s c"

fun flush_loop :: "contour_state \<Rightarrow> cmd list \<Rightarrow> contour_state" where
  "flush_loop s [] = s"
| "flush_loop s (c # cs) = flush_loop (flush_step s c) cs"

definition flushed_buffers :: "cmd list \<Rightarrow> point list list" where
  "flushed_buffers commands =
    (let s = flush_loop \<lparr>contours = [], current = [], cx = 0, cy = 0\<rparr> commands
     in contours s @ [current s])"

definition distinct_points :: "point list \<Rightarrow> nat" where
  "distinct_points c = length (remdups c)"

text \<open>The invariant of the spec's data model, on the contours of a path.\<close>

definition contours_have_3_distinct :: "cmd list \<Rightarrow> bool" where
  "contours_have_3_distinct commands \<longleftrightarrow>
     list_all (\<lambda>c. 3 \<le> distinct_points c) (pathToContours commands 1)"

section \<open>Polygon offsetter (geometry.js, shrinkPolygon)\<close>

text \<open>
  Reading \<open>xs[k]\<close>: JavaScript gives \<open>undefined\<close> outside the array, and reading a
  coordinate of \<open>undefined\<close> raises a TypeError. The remainder operator \<open>%\<close> truncates
  towards zero, which is \<open>smod\<close>.
\<close>

definition index_opt :: "'a list \<Rightarrow> int \<Rightarrow> 'a option" where
  "index_opt xs k = (if 0 \<le> k \<and> k < int (length xs) then Some (xs ! nat k) else None)"

text \<open>\<open>v || 1\<close> on a number: the value 0 is falsy and is replaced by 1.\<close>

definition or_one :: "real \<Rightarrow> real" where
  "or_one v = (if v = 0 then 1 else v)"

definition vec_len :: "real \<Rightarrow> real \<Rightarrow> real" where
  "vec_len x y = sqrt (x*x + y*y)"

text \<open>The constants that the callback computes for one vertex \<open>p\<close> with its neighbours:
  edge vectors, normals, their guarded lengths, the bisector and its guarded length.\<close>

record shrink_record =
  sc_e1x :: real
  sc_e1y :: real
  sc_e2x :: real
  sc_e2y :: real
  sc_n1x :: real
  sc_n1y :: real
  sc_n2x :: real
  sc_n2y :: real
  sc_l1 :: real
  sc_l2 :: real
  sc_bx :: real
  sc_by :: real
  sc_lb :: real

definition shrink_consts :: "point \<Rightarrow> point \<Rightarrow> point \<Rightarrow> shrink_record" where
  "shrink_consts prev p next =
    (let e1x = fst p - fst prev; e1y = snd p - snd prev;
         e2x = fst next - fst p; e2y = snd next - snd p;
         n1x = e1y; n1y = - e1x;
         n2x = e2y; n2y = - e2x;
         l1 = or_one (vec_len n1x n1y);
         l2 = or_one (vec_len n2x n2y);
         bx = n1x/l1 + n2x/l2;
         by = n1y/l1 + n2y/l2;
         lb = or_one (vec_len bx by)
     in \<lparr>sc_e1x = e1x, sc_e1y = e1y, sc_e2x = e2x, sc_e2y = e2y,
         sc_n1x = n1x, sc_n1y = n1y, sc_n2x = n2x, sc_n2y = n2y,
         sc_l1 = l1, sc_l2 = l2, sc_bx = bx, sc_by = by, sc_lb = lb\<rparr>)"

definition shrink_vertex :: "point \<Rightarrow> point \<Rightarrow> point \<Rightarrow> real \<Rightarrow> point" where
  "shrink_vertex prev p next amount =
    (let c = shrink_consts prev p next
     in (fst p + (sc_bx c / sc_lb c) * amount, snd p + (sc_by c / sc_lb c) * amount))"

text \<open>The indices \<open>(i - 1 + n) % n\<close> and \<open>(i + 1) % n\<close> as natural numbers.\<close>

definition prev_index :: "nat \<Rightarrow> nat \<Rightarrow> nat" where
  "prev_index n i = (i + n - 1) mod n"

definition next_index :: "nat \<Rightarrow> nat \<Rightarrow> nat" where
  "next_index n i = (i + 1) mod n"

text \<open>The callback of \<open>points.map((p, i) => \<dots>)\<close>.\<close>

definition shrink_callback :: "point list \<Rightarrow> real \<Rightarrow> point \<Rightarrow> nat \<Rightarrow> js_error + point" where
  "shrink_callback points amount p i =
    (let n = int (length points) in
     case index_opt points ((int i - 1 + n) smod n) of
       None \<Rightarrow> Inl TypeError
     | Some prev \<Rightarrow>
        (case index_opt points ((int i + 1) smod n) of
           None \<Rightarrow> Inl TypeError
         | Some next \<Rightarrow> Inr (shrink_vertex prev p next amount)))"

fun map_indexed :: "('a \<Rightarrow> nat \<Rightarrow> js_error + 'b) \<Rightarrow> nat \<Rightarrow> 'a list \<Rightarrow> js_error + 'b list" where
  "map_indexed f i [] = Inr []"
| "map_indexed f i (x # xs) =
     (case f x i of
        Inl e \<Rightarrow> Inl e
      | Inr y \<Rightarrow> (case map_indexed f (Suc i) xs of Inl e \<Rightarrow> Inl e | Inr ys \<Rightarrow> Inr (y # ys)))"

definition shrinkPolygon :: "point list \<Rightarrow> real \<Rightarrow> js_error + point list" where
  "shrinkPolygon points amount = map_indexed (shrink_callback points amount) 0 points"

subsection \<open>Measures on polygons used to state the offsetter's properties\<close>

definition polygon_area :: "point list \<Rightarrow> real" where
  "polygon_area ps = \<bar>signed_area ps\<bar>"

text \<open>The edges of a closed polygon: consecutive points, and the last with the first.\<close>

definition polygon_edges :: "point list \<Rightarrow> (point \<times> point) list" where
  "polygon_edges ps = (case ps of [] \<Rightarrow> [] | p # _ \<Rightarrow> zip ps (tl ps @ [p]))"

definition side_of :: "point \<times> point \<Rightarrow> point \<Rightarrow> real" where
  "side_of e v = (fst (snd e) - fst (fst e)) * (snd v - snd (fst e))
               - (snd (snd e) - snd (fst e)) * (fst v - fst (fst e))"

text \<open>A polygon is convex when all its vertices lie on one side of every edge line; it is
  convex and clockwise when they all lie on the right-hand side.\<close>

definition convex_polygon :: "point list \<Rightarrow> bool" where
  "convex_polygon ps \<longleftrightarrow> 3 \<le> length ps \<and> signed_area ps \<noteq> 0 \<and>
     (list_all (\<lambda>e. list_all (\<lambda>v. side_of e v \<le> 0) ps) (polygon_edges ps)
      \<or> list_all (\<lambda>e. list_all (\<lambda>v. 0 \<le> side_of e v) ps) (polygon_edges ps))"

text \<open>Distance from a point to a segment, and to the nearest edge of a polygon.\<close>

definition dist_segment :: "point \<Rightarrow> point \<times> point \<Rightarrow> real" where
  "dist_segment q e =
    (let a = fst e; b = snd e;
         dx = fst b - fst a; dy = snd b - snd a;
         len2 = dx*dx + dy*dy;
         t = (if len2 = 0 then 0
              else max 0 (min 1 (((fst q - fst a) * dx + (snd q - snd a) * dy) / len2)));
         cxp = fst a + t * dx; cyp = snd a + t * dy
     in vec_len (fst q - cxp) (snd q - cyp))"

fun min_list_real :: "real list \<Rightarrow> real" where
  "min_list_real [] = 0"
| "min_list_real [x] = x"
| "min_list_real (x # y # ys) = min x (min_list_real (y # ys))"

definition nearest_edge_dist :: "point list \<Rightarrow> point \<Rightarrow> real" where
  "nearest_edge_dist ps q = min_list_real (map (dist_segment q) (polygon_edges ps))"

text \<open>Distance from a point to the line through an edge of non-zero length.\<close>

definition dist_line :: "point \<Rightarrow> point \<times> point \<Rightarrow> real" where
  "dist_line q e = \<bar>side_of e q\<bar> / vec_len (fst (snd e) - fst (fst e)) (snd (snd e) - snd (fst e))"

text \<open>The axis-aligned rectangle with lower left corner \<open>(x, y)\<close>, width \<open>w\<close> and height
  \<open>h\<close>, clockwise: up the left side, along the top, down the right side.\<close>

definition cw_rectangle :: "real \<Rightarrow> real \<Rightarrow> real \<Rightarrow> real \<Rightarrow> point list" where
  "cw_rectangle x y w h = [(x, y), (x, y + h), (x + w, y + h), (x + w, y)]"

text \<open>
  The unit vector along which the callback moves a vertex (zero where the bisector is
  zero), the callback's constants at the vertex of index \<open>i\<close>, and the polygons that
  have a vertex with a non-zero bisector.
\<close>

definition bisector_unit :: "point \<Rightarrow> point \<Rightarrow> point \<Rightarrow> point" where
  "bisector_unit prev p next =
     (let c = shrink_consts prev p next in (sc_bx c / sc_lb c, sc_by c / sc_lb c))"

definition vertex_consts :: "point list \<Rightarrow> nat \<Rightarrow> shrink_record" where
  "vertex_consts ps i =
     shrink_consts (ps ! prev_index (length ps) i) (ps ! i) (ps ! next_index (length ps) i)"

definition unit_at :: "point list \<Rightarrow> nat \<Rightarrow> point" where
  "unit_at ps i = bisector_unit (ps ! prev_index (length ps) i) (ps ! i) (ps ! next_index (length ps) i)"

definition has_corner :: "point list \<Rightarrow> bool" where
  "has_corner ps \<longleftrightarrow>
     list_ex (\<lambda>i. sc_bx (vertex_consts ps i) \<noteq> 0 \<or> sc_by (vertex_consts ps i) \<noteq> 0) [0..<length ps]"

text \<open>The coefficient of the offset distance in the shoelace sum of the result: the
  contribution of one vertex.\<close>

definition mixed_term :: "point list \<Rightarrow> nat \<Rightarrow> real" where
  "mixed_term ps j = cross2 (ps ! prev_index (length ps) j) (unit_at ps j)
                   + cross2 (unit_at ps j) (ps ! next_index (length ps) j)"

text \<open>The offset property as the spec states it, with its tolerance \<open>eps\<close>.\<close>

definition offset_shrinks :: "real \<Rightarrow> point list \<Rightarrow> real \<Rightarrow> bool" where
  "offset_shrinks eps ps d \<longleftrightarrow>
     (case shrinkPolygon ps d of
        Inl _ \<Rightarrow> False
      | Inr qs \<Rightarrow> polygon_area qs < polygon_area ps \<and>
                 list_all (\<lambda>q. d * (1 - eps) \<le> nearest_edge_dist ps q) qs)"

section \<open>Mesh conversion (viewer.js, jscadToThreeGeometry)\<close>

text \<open>
  A vertex of a JSCAD polygon arrives in one of three shapes: an array \<open>[x, y, z]\<close>, an
  object with a \<open>pos\<close> array, or an object with numeric \<open>x\<close>; anything else is
  \<open>VOther\<close>. A position buffer holds numbers; an entry read from a missing array slot or
  a missing property is \<open>None\<close>.
\<close>

datatype vertex =
    VArray "real list"
  | VPos "real list"
  | VXYZ real "real option" "real option"
  | VOther

definition elem :: "real list \<Rightarrow> nat \<Rightarrow> real option" where
  "elem a k = (if k < length a then Some (a ! k) else None)"

fun pushVertex :: "real option list \<Rightarrow> vertex option \<Rightarrow> real option list" where
  "pushVertex arr (Some (VArray v)) = arr @ [elem v 0, elem v 1, elem v 2]"
| "pushVertex arr (Some (VPos pos)) = arr @ [elem pos 0, elem pos 1, elem pos 2]"
| "pushVertex arr (Some (VXYZ x y z)) = arr @ [Some x, y, z]"
| "pushVertex arr (Some VOther) = arr"
| "pushVertex arr None = arr"

definition vertex_at :: "vertex list \<Rightarrow> nat \<Rightarrow> vertex option" where
  "vertex_at verts k = (if k < length verts then Some (verts ! k) else None)"

function fan_loop :: "vertex list \<Rightarrow> nat \<Rightarrow> real option list \<Rightarrow> real option list" where
  "fan_loop verts i positions =
     (if int i < int (length verts) - 1 then
        fan_loop verts (Suc i)
          (pushVertex (pushVertex (pushVertex positions (vertex_at verts 0))
                                  (vertex_at verts i))
                      (vertex_at verts (i + 1)))
      else positions)"
  by pat_completeness auto
termination
  by (relation "measure (\<lambda>(verts, i, positions). length verts - i)") auto

declare fan_loop.simps [simp del]

record face =
  vertices :: "vertex list option"

text \<open>The callback of \<open>polygons.forEach\<close>.\<close>

definition face_positions :: "real option list \<Rightarrow> face \<Rightarrow> real option list" where
  "face_positions positions poly =
     (case vertices poly of
        None \<Rightarrow> positions
      | Some verts \<Rightarrow> if length verts < 3 then positions else fan_loop verts 1 positions)"

datatype jscad_geom =
    Geom3 "face list option"
  | GeomArray "jscad_geom list"

text \<open>
  The position buffer of the geometry that \<open>jscadToThreeGeometry\<close> returns. For an array
  of solids the source reads every sub-buffer back vertex by vertex through the buffer
  attribute of three.js, whose count is the buffer length over 3; a buffer that does
  not hold a whole number of vertices is read past its end, which yields entries
  without a value. The normal attribute and the float32 rounding of the attribute are
  not modelled.
\<close>

definition pad3 :: "real option list \<Rightarrow> real option list" where
  "pad3 xs = xs @ replicate ((3 - length xs mod 3) mod 3) None"

fun jscadToThreeGeometry :: "jscad_geom \<Rightarrow> real option list" where
  "jscadToThreeGeometry (GeomArray gs) = concat (map (\<lambda>g. pad3 (jscadToThreeGeometry g)) gs)"
| "jscadToThreeGeometry (Geom3 polys) =
     foldl face_positions [] (case polys of None \<Rightarrow> [] | Some ps \<Rightarrow> ps)"

text \<open>Fan triangulation as the spec words it: vertex 0 paired with every consecutive
  edge \<open>(i, i + 1)\<close>, for \<open>i\<close> from 1 to \<open>n - 2\<close>.\<close>

definition fan_triangles :: "'a list \<Rightarrow> ('a \<times> 'a \<times> 'a) list" where
  "fan_triangles vs = map (\<lambda>i. (vs ! 0, vs ! i, vs ! (i + 1))) [1..<length vs - 1]"

fun vertex_coords :: "vertex \<Rightarrow> real option list" where
  "vertex_coords (VArray v) = [elem v 0, elem v 1, elem v 2]"
| "vertex_coords (VPos pos) = [elem pos 0, elem pos 1, elem pos 2]"
| "vertex_coords (VXYZ x y z) = [Some x, y, z]"
| "vertex_coords VOther = []"

definition triangle_coords :: "vertex \<times> vertex \<times> vertex \<Rightarrow> real option list" where
  "triangle_coords t = (case t of (a, b, c) \<Rightarrow> vertex_coords a @ vertex_coords b @ vertex_coords c)"

definition recognised :: "vertex \<Rightarrow> bool" where
  "recognised v \<longleftrightarrow> v \<noteq> VOther"

section \<open>Text geometry (geometry.js, buildText)\<close>

text \<open>
  The modelling library (JSCAD) and the font library (opentype.js) are loaded from the
  network and are not part of the repository: their operations are parameters. Of the
  library calls only \<open>primitives.polygon\<close> is given a failing branch, since \<open>buildText\<close>
  catches its exception; the other operations are taken to return. \<open>'g\<close> is the type of
  JSCAD geometries. A font's \<open>unitsPerEm\<close> is taken to be non-zero (in HOL a division by
  zero is 0, in JavaScript it is Infinity); no property below depends on the scale.
\<close>

record 'g jscad =
  polygon :: "point list \<Rightarrow> js_error + 'g"
  extrudeLinear :: "real \<Rightarrow> 'g \<Rightarrow> 'g"
  translate :: "real \<times> real \<times> real \<Rightarrow> 'g \<Rightarrow> 'g"
  union :: "'g list \<Rightarrow> 'g"
  subtract :: "'g \<Rightarrow> 'g \<Rightarrow> 'g"

record glyph =
  getPath :: "real \<Rightarrow> real \<Rightarrow> real \<Rightarrow> cmd list"
  advanceWidth :: "real option"

record font =
  unitsPerEm :: real
  stringToGlyphs :: "string \<Rightarrow> glyph list"
  getKerningValue :: "glyph \<Rightarrow> glyph \<Rightarrow> real"

record text_opts =
  opt_size :: "real option"
  opt_z :: "real option"
  opt_height :: "real option"
  opt_centerX :: "real option"
  opt_centerY :: "real option"

text \<open>
  \<open>String.prototype.trim\<close> removes white space and line terminators from both ends. Of
  the characters that a \<open>char\<close> can hold these are tab, line feed, vertical tab, form
  feed, carriage return, space and the no-break space.
\<close>

definition js_whitespace :: "char \<Rightarrow> bool" where
  "js_whitespace c \<longleftrightarrow> (of_char c :: nat) \<in> {9, 10, 11, 12, 13, 32, 160}"

definition trim :: "string \<Rightarrow> string" where
  "trim s = rev (dropWhile js_whitespace (rev (dropWhile js_whitespace s)))"

definition whitespace_only :: "string \<Rightarrow> bool" where
  "whitespace_only s \<longleftrightarrow> list_all js_whitespace s"

definition or_default :: "'a option \<Rightarrow> 'a \<Rightarrow> 'a" where
  "or_default v d = (case v of None \<Rightarrow> d | Some x \<Rightarrow> x)"

text \<open>The callback of \<open>contours.forEach\<close>: a polygon is made of a contour of at least 3
  points, and a contour on which \<open>primitives.polygon\<close> throws is skipped.\<close>

definition contour_callback ::
  "'g jscad \<Rightarrow> real \<Rightarrow> ('g \<times> real) list \<Rightarrow> point list \<Rightarrow> ('g \<times> real) list" where
  "contour_callback jscad cursorX allPolygons pts =
     (if length pts \<ge> 3 then
        (case polygon jscad pts of
           Inr poly \<Rightarrow> allPolygons @ [(poly, cursorX)]
         | Inl e \<Rightarrow> allPolygons)
      else allPolygons)"

fun glyph_loop ::
  "'g jscad \<Rightarrow> font \<Rightarrow> real \<Rightarrow> real \<Rightarrow> glyph list \<Rightarrow> real \<Rightarrow> ('g \<times> real) list
     \<Rightarrow> ('g \<times> real) list \<times> real" where
  "glyph_loop jscad fnt sz scale [] cursorX allPolygons = (allPolygons, cursorX)"
| "glyph_loop jscad fnt sz scale (glyph # rest) cursorX allPolygons =
     (let path = getPath glyph 0 0 sz;
          contours = pathToContours path scale;
          allPolygons1 = foldl (contour_callback jscad cursorX) allPolygons contours;
          adv = (case advanceWidth glyph of
                   None \<Rightarrow> sz * 0.6
                 | Some a \<Rightarrow> if a = 0 then sz * 0.6 else a);
          cursorX1 = cursorX + adv * scale;
          cursorX2 = (case rest of
                        [] \<Rightarrow> cursorX1
                      | nxt # _ \<Rightarrow> cursorX1 + getKerningValue fnt glyph nxt * scale)
      in glyph_loop jscad fnt sz scale rest cursorX2 allPolygons1)"

definition buildText :: "'g jscad \<Rightarrow> font \<Rightarrow> string \<Rightarrow> text_opts \<Rightarrow> 'g option" where
  "buildText jscad fnt text opts =
    (let sz = or_default (opt_size opts) 20;
         z = or_default (opt_z opts) 3;
         height = or_default (opt_height opts) 2;
         centerX = or_default (opt_centerX opts) 50;
         centerY = or_default (opt_centerY opts) 50
     in if text = [] \<or> trim text = [] then None
        else
          (let scale = sz / unitsPerEm fnt;
               glyphs = stringToGlyphs fnt text;
               (allPolygons, cursorX) = glyph_loop jscad fnt sz scale glyphs 0 []
           in if length allPolygons = 0 then None
              else
                (let textWidth = cursorX;
                     startX = centerX - textWidth / 2;
                     extruded = map (\<lambda>(poly, offsetX).
                                  translate jscad (startX + offsetX, centerY, z)
                                    (extrudeLinear jscad height poly)) allPolygons
                 in if length extruded = 1 then Some (extruded ! 0)
                    else Some (union jscad extruded))))"

section \<open>Body and trim (geometry.js, buildBody and buildTrim)\<close>

definition buildBody :: "'g jscad \<Rightarrow> point list \<Rightarrow> real \<Rightarrow> js_error + 'g" where
  "buildBody jscad points thickness =
     (case polygon jscad points of
        Inl e \<Rightarrow> Inl e
      | Inr poly \<Rightarrow> Inr (extrudeLinear jscad thickness poly))"

definition buildTrim :: "'g jscad \<Rightarrow> point list \<Rightarrow> real \<Rightarrow> real \<Rightarrow> real \<Rightarrow> js_error + 'g" where
  "buildTrim jscad points baseThickness trimWidth textHeight =
     (case polygon jscad points of
        Inl e \<Rightarrow> Inl e
      | Inr outer \<Rightarrow>
         (case shrinkPolygon points trimWidth of
            Inl e \<Rightarrow> Inl e
          | Inr innerPts \<Rightarrow>
             (case polygon jscad innerPts of
                Inl e \<Rightarrow> Inl e
              | Inr inner \<Rightarrow>
                 (let ring = subtract jscad outer inner;
                      height = baseThickness + textHeight
                  in Inr (extrudeLinear jscad height ring)))))"

section \<open>Entry point (geometry.js, generate)\<close>

record inputs =
  playerName :: "jsval option"
  number :: "jsval option"
  jerseyStyle :: "jsval option"
  showTrim :: "jsval option"
  baseThickness :: "real option"

text \<open>\<open>String(v)\<close> and the truth value of \<open>v\<close>, for the primitive values of the model.\<close>

fun digits :: "nat \<Rightarrow> string" where
  "digits n = (if n < 10 then [char_of (48 + n)]
               else digits (n div 10) @ [char_of (48 + n mod 10)])"

declare digits.simps [simp del]

fun js_String :: "jsval \<Rightarrow> string" where
  "js_String (JStr s) = s"
| "js_String (JInt n) = (if n < 0 then CHR ''-'' # digits (nat (- n)) else digits (nat n))"
| "js_String (JBool b) = (if b then ''true'' else ''false'')"
| "js_String JNull = ''null''"

fun truthy :: "jsval \<Rightarrow> bool" where
  "truthy (JStr s) = (s \<noteq> [])"
| "truthy (JInt n) = (n \<noteq> 0)"
| "truthy (JBool b) = b"
| "truthy JNull = False"

text \<open>\<open>s.substring(0, n)\<close> for a non-negative \<open>n\<close> is the first \<open>n\<close> characters of \<open>s\<close>.
  \<open>toUpperCase\<close> is a function of the host language and a parameter here.\<close>

definition substring0 :: "string \<Rightarrow> nat \<Rightarrow> string" where
  "substring0 s n = take n s"

definition numStr :: "inputs \<Rightarrow> string" where
  "numStr inp = substring0 (js_String (or_default (number inp) (JStr ''23''))) 2"

definition nameStr :: "(string \<Rightarrow> string) \<Rightarrow> inputs \<Rightarrow> string" where
  "nameStr toUpperCase inp =
     substring0 (toUpperCase (js_String (or_default (playerName inp) (JStr ''SMITH'')))) 14"

type_synonym 'g region_map = "(string \<times> 'g option) list"

definition generate ::
  "'g jscad \<Rightarrow> font \<Rightarrow> (string \<Rightarrow> string) \<Rightarrow> inputs \<Rightarrow> js_error + 'g region_map" where
  "generate jscad fnt toUpperCase inp =
    (let style = or_default (jerseyStyle inp) (JStr ''NBA Modern'');
         trimOn = or_default (showTrim inp) (JBool True);
         thickness = or_default (baseThickness inp) 3;
         textH = 2;
         trimW = 1.5;
         silhouette = jerseyPoints style
     in case buildBody jscad silhouette thickness of
          Inl e \<Rightarrow> Inl e
        | Inr bodyGeom \<Rightarrow>
           (let numberGeom = buildText jscad fnt (numStr inp)
                  \<lparr>opt_size = Some 28, opt_z = Some thickness, opt_height = Some textH,
                   opt_centerX = Some 50, opt_centerY = Some 68\<rparr>;
                nameGeom = buildText jscad fnt (nameStr toUpperCase inp)
                  \<lparr>opt_size = Some 10, opt_z = Some thickness, opt_height = Some textH,
                   opt_centerX = Some 50, opt_centerY = Some 26\<rparr>
            in case (if truthy trimOn
                     then (case buildTrim jscad silhouette thickness trimW textH of
                             Inl e \<Rightarrow> Inl e
                           | Inr t \<Rightarrow> Inr (Some t))
                     else Inr None) of
                 Inl e \<Rightarrow> Inl e
               | Inr trimGeom \<Rightarrow>
                   Inr [(''body'', Some bodyGeom), (''number'', numberGeom),
                        (''name'', nameGeom), (''trim'', trimGeom)]))"

text \<open>\<open>geometries[id]\<close> as a condition: a missing key and \<open>null\<close> are both falsy.\<close>

definition region_geom :: "'g region_map \<Rightarrow> string \<Rightarrow> 'g option" where
  "region_geom geometries rid = (case map_of geometries rid of Some (Some g) \<Rightarrow> Some g | _ \<Rightarrow> None)"

section \<open>Viewer (viewer.js, loadGeometries)\<close>

record region =
  region_id :: string
  region_label :: string
  region_default :: "string option"

record mesh =
  mesh_positions :: "real option list"
  mesh_color :: string

text \<open>\<open>colorMap[region.id] || region.default || '#888888'\<close>: a missing entry and the empty
  string are falsy.\<close>

definition pick_color :: "string option \<Rightarrow> string option \<Rightarrow> string" where
  "pick_color mapped dflt =
     (case mapped of
        Some c \<Rightarrow> if c \<noteq> [] then c else (case dflt of Some d \<Rightarrow> if d \<noteq> [] then d else ''#888888'' | None \<Rightarrow> ''#888888'')
      | None \<Rightarrow> (case dflt of Some d \<Rightarrow> if d \<noteq> [] then d else ''#888888'' | None \<Rightarrow> ''#888888''))"

record viewer_state =
  modelGroup :: "mesh list"
  meshMap :: "string \<rightharpoonup> mesh"

text \<open>The callback of \<open>colorRegions.forEach\<close>; the camera placement that follows the loop
  is not modelled.\<close>

definition load_region ::
  "jscad_geom region_map \<Rightarrow> (string \<rightharpoonup> string) \<Rightarrow> viewer_state \<Rightarrow> region \<Rightarrow> viewer_state" where
  "load_region geometries colorMap st rg =
     (case region_geom geometries (region_id rg) of
        None \<Rightarrow> st
      | Some jscadGeom \<Rightarrow>
         (let threeGeom = jscadToThreeGeometry jscadGeom;
              color = pick_color (colorMap (region_id rg)) (region_default rg);
              msh = \<lparr>mesh_positions = threeGeom, mesh_color = color\<rparr>
          in \<lparr>modelGroup = modelGroup st @ [msh],
              meshMap = (meshMap st)(region_id rg \<mapsto> msh)\<rparr>))"

definition loadGeometries ::
  "jscad_geom region_map \<Rightarrow> region list \<Rightarrow> (string \<rightharpoonup> string) \<Rightarrow> viewer_state" where
  "loadGeometries geometries colorRegions colorMap =
     foldl (load_region geometries colorMap) \<lparr>modelGroup = [], meshMap = Map.empty\<rparr> colorRegions"

section \<open>Export (stl-exporter.js, exportAllSTL and exportRegionSTL)\<close>

type_synonym byte = "8 word"

text \<open>What \<open>serialize\<close> hands back: one buffer, or an array of buffers.\<close>

datatype raw_data = ArrayBuffer "byte list" | BufferArray "byte list list"

record design =
  design_id :: string
  colorRegions :: "region list"

record download =
  filename :: string
  content :: "byte list option"

text \<open>
  \<open>exportRegionSTL\<close>: no download when the geometry is absent; otherwise the download of
  one buffer, which is \<open>rawData\<close> itself when that is a buffer and \<open>rawData[0]\<close> when it
  is an array (\<open>None\<close> when the array is empty). The serializer is a parameter.
\<close>

definition exportRegionSTL ::
  "(jscad_geom list \<Rightarrow> raw_data) \<Rightarrow> region \<Rightarrow> jscad_geom option \<Rightarrow> design \<Rightarrow> download option" where
  "exportRegionSTL serialize rg geometry dsg =
     (case geometry of
        None \<Rightarrow> None
      | Some g \<Rightarrow>
         (let solids = (case g of GeomArray gs \<Rightarrow> gs | Geom3 _ \<Rightarrow> [g]);
              rawData = serialize solids;
              buffer = (case rawData of
                          ArrayBuffer b \<Rightarrow> Some b
                        | BufferArray bs \<Rightarrow> (case bs of [] \<Rightarrow> None | b # _ \<Rightarrow> Some b));
              fname = design_id dsg @ ''__'' @ region_id rg @ ''.stl''
          in Some \<lparr>filename = fname, content = buffer\<rparr>))"

fun export_loop ::
  "(jscad_geom list \<Rightarrow> raw_data) \<Rightarrow> design \<Rightarrow> jscad_geom region_map \<Rightarrow> region list \<Rightarrow> download list" where
  "export_loop serialize dsg geometries [] = []"
| "export_loop serialize dsg geometries (rg # rest) =
     (case region_geom geometries (region_id rg) of
        None \<Rightarrow> export_loop serialize dsg geometries rest
      | Some g \<Rightarrow>
         (case exportRegionSTL serialize rg (Some g) dsg of
            None \<Rightarrow> export_loop serialize dsg geometries rest
          | Some d \<Rightarrow> d # export_loop serialize dsg geometries rest))"

text \<open>\<open>exportAllSTL\<close> returns the downloads it triggered, in order; \<open>gen\<close> is the
  \<open>generate\<close> function of the design's geometry module.\<close>

definition exportAllSTL ::
  "(inputs \<Rightarrow> js_error + jscad_geom region_map) \<Rightarrow> (jscad_geom list \<Rightarrow> raw_data)
     \<Rightarrow> design \<Rightarrow> inputs \<Rightarrow> js_error + download list" where
  "exportAllSTL gen serialize dsg inp =
     (case gen inp of
        Inl e \<Rightarrow> Inl e
      | Inr geometries \<Rightarrow> Inr (export_loop serialize dsg geometries (colorRegions dsg)))"

section \<open>Binary mesh format\<close>

text \<open>
  Modelled from the spec: the binary serializer (\<open>@jscad/stl-serializer\<close>, loaded from
  the network by \<open>exportRegionSTL\<close>) is not in the repository. The layout is the one of
  section 6 of the spec: an 80-byte header, the triangle count as a little-endian
  unsigned 32-bit integer, then 50 bytes per triangle: the face normal and the three
  vertices as little-endian float32 triples, and 2 unused bytes. A float32 is carried
  as its 32-bit pattern.
\<close>

type_synonym f32 = "32 word"

record stl_triangle =
  tri_normal :: "f32 \<times> f32 \<times> f32"
  tri_v1 :: "f32 \<times> f32 \<times> f32"
  tri_v2 :: "f32 \<times> f32 \<times> f32"
  tri_v3 :: "f32 \<times> f32 \<times> f32"

definition le32 :: "32 word \<Rightarrow> byte list" where
  "le32 w = [ucast w, ucast (drop_bit 8 w), ucast (drop_bit 16 w), ucast (drop_bit 24 w)]"


definition vec_bytes :: "f32 \<times> f32 \<times> f32 \<Rightarrow> byte list" where
  "vec_bytes v = (case v of (x, y, z) \<Rightarrow> le32 x @ le32 y @ le32 z)"

definition triangle_bytes :: "stl_triangle \<Rightarrow> byte list" where
  "triangle_bytes t =
     vec_bytes (tri_normal t) @ vec_bytes (tri_v1 t) @ vec_bytes (tri_v2 t) @ vec_bytes (tri_v3 t)
       @ [0, 0]"

definition stl_header :: "byte list \<Rightarrow> byte list" where
  "stl_header comment = take 80 (comment @ replicate 80 0)"

definition stl_serialize :: "byte list \<Rightarrow> stl_triangle list \<Rightarrow> byte list" where
  "stl_serialize comment tris =
     stl_header comment @ le32 (of_nat (length tris)) @ concat (map triangle_bytes tris)"






text \<open>The serializer of the spec as \<open>exportRegionSTL\<close> calls it: \<open>mesh_of\<close> is the
  triangle mesh of the solids (section 4.6), and the result is one buffer.\<close>

definition spec_serialize ::
  "byte list \<Rightarrow> (jscad_geom list \<Rightarrow> stl_triangle list) \<Rightarrow> jscad_geom list \<Rightarrow> raw_data" where
  "spec_serialize comment mesh_of solids = ArrayBuffer (stl_serialize comment (mesh_of solids))"

section \<open>Stand-ins for the libraries\<close>

text \<open>
  Concrete values for the parameters, on which the definitions above can be evaluated:
  a modelling library whose polygon is one flat face and whose union collects its
  operands, a font whose every glyph is a triangle of the requested size, and the
  upper-casing of the ASCII letters.
\<close>

definition sample_jscad :: "jscad_geom jscad" where
  "sample_jscad =
     \<lparr>polygon = (\<lambda>pts. if length pts < 3 then Inl LibraryError
                       else Inr (Geom3 (Some [\<lparr>vertices = Some (map (\<lambda>p. VArray [fst p, snd p, 0]) pts)\<rparr>]))),
      extrudeLinear = (\<lambda>h g. g),
      translate = (\<lambda>v g. g),
      union = GeomArray,
      subtract = (\<lambda>a b. a)\<rparr>"

definition sample_glyph :: glyph where
  "sample_glyph = \<lparr>getPath = (\<lambda>x y sz. [M x y, L (x + sz) y, L (x + sz) (y + sz), Z]),
                   advanceWidth = Some 500\<rparr>"

definition sample_font :: font where
  "sample_font = \<lparr>unitsPerEm = 1000,
                  stringToGlyphs = map (\<lambda>c. sample_glyph),
                  getKerningValue = (\<lambda>a b. 0)\<rparr>"

text \<open>The colour regions of the design's configuration (config.js), and an input map
  whose number and player name are blank.\<close>

definition basketball_jersey :: design where
  "basketball_jersey = \<lparr>design_id = ''basketball-jersey'',
     colorRegions = [\<lparr>region_id = ''body'', region_label = ''Jersey Body'', region_default = Some ''#C8102E''\<rparr>,
                     \<lparr>region_id = ''number'', region_label = ''Number'', region_default = Some ''#FFFFFF''\<rparr>,
                     \<lparr>region_id = ''name'', region_label = ''Player Name'', region_default = Some ''#FFFFFF''\<rparr>,
                     \<lparr>region_id = ''trim'', region_label = ''Trim / Border'', region_default = Some ''#041E42''\<rparr>]\<rparr>"

definition blank_inputs :: inputs where
  "blank_inputs = \<lparr>playerName = Some (JStr '' ''), number = Some (JStr ''  ''),
      jerseyStyle = Some (JStr ''College''), showTrim = Some (JBool False), baseThickness = Some 3\<rparr>"

definition ascii_toUpperCase :: "string \<Rightarrow> string" where
  "ascii_toUpperCase s =
     map (\<lambda>c. if 97 \<le> (of_char c :: nat) \<and> (of_char c :: nat) \<le> 122
               then char_of ((of_char c :: nat) - 32) else c) s"

section \<open>Properties of the silhouette\<close>

text \<open>
  C7. A style selector outside \<open>'NBA Modern'\<close>, \<open>'College'\<close>, \<open>'Retro'\<close> (any other
  string, and any value that is not a string) gives the outline of the fixed default
  dimensions: shoulder drop 14, armhole width 18, armhole depth 24, collar width 16,
  collar depth 10. \<open>jerseyPoints\<close> has no failing branch, and the result does not depend
  on which unknown selector was given.
\<close>

theorem jerseyPoints_unknown_style_default:
  "\<not> known_style style \<Longrightarrow> jerseyPoints style = outline_of_dims (14, 18, 24, 16, 10)"
  by (simp add: known_style_def jerseyPoints_def outline_of_dims_def)

theorem jerseyPoints_unknown_style_default_witness:
  "\<not> known_style (JStr ''Vintage'') \<and> \<not> known_style JNull
   \<and> jerseyPoints (JStr ''Vintage'') = outline_of_dims (14, 18, 24, 16, 10)
   \<and> jerseyPoints JNull = jerseyPoints (JStr ''Vintage'')"
proof -
  have a: "\<not> known_style (JStr ''Vintage'')" and b: "\<not> known_style JNull"
    by (simp_all add: known_style_def)
  show ?thesis
    using a b jerseyPoints_unknown_style_default [OF a] jerseyPoints_unknown_style_default [OF b]
    by simp
qed

text \<open>
  C2. For every style selector \<open>jerseyPoints\<close> returns 13 points, the first of which is
  the bottom-left corner \<open>(0, 0)\<close>. The shoelace sum of the sequence is positive: in the
  frame of the source (origin at the bottom left, y upwards) the points run
  counter-clockwise, from the bottom-left corner along the bottom edge to the right
  and then up the right side. The sequence is not clockwise.
\<close>

theorem jerseyPoints_counter_clockwise:
  "length (jerseyPoints style) = 13 \<and> hd (jerseyPoints style) = (0, 0)
   \<and> counter_clockwise (jerseyPoints style) \<and> \<not> clockwise (jerseyPoints style)"
  by (simp add: jerseyPoints_def Let_def counter_clockwise_def clockwise_def signed_area_def
        shoelace_def cross2_def)

lemma jerseyPoints_signed_area:
  "signed_area (jerseyPoints (JStr ''NBA Modern'')) = 11256"
  "signed_area (jerseyPoints (JStr ''College'')) = 11224"
  "signed_area (jerseyPoints (JStr ''Retro'')) = 11192"
  by (simp_all add: jerseyPoints_def signed_area_def shoelace_def cross2_def)

section \<open>Properties of the curve sampler\<close>

lemma sampleCubic_loop_eq:
  "sampleCubic_loop p0 p1 p2 p3 steps i pts =
     pts @ map (\<lambda>k. bezier3 p0 p1 p2 p3 (real k / real steps)) [i..<Suc steps]"
proof (induction p0 p1 p2 p3 steps i pts rule: sampleCubic_loop.induct)
  case (1 p0 p1 p2 p3 steps i pts)
  show ?case
  proof (cases "i \<le> steps")
    case True
    have pt: "bezier3 p0 p1 p2 p3 t =
      ((1-t)*(1-t)*(1-t)*fst p0 + 3*(1-t)*(1-t)*t*fst p1 + 3*(1-t)*t*t*fst p2 + t*t*t*fst p3,
       (1-t)*(1-t)*(1-t)*snd p0 + 3*(1-t)*(1-t)*t*snd p1 + 3*(1-t)*t*t*snd p2 + t*t*t*snd p3)" for t
      by (simp add: bezier3_def bezier2_def lerp_def algebra_simps)
    from True have up: "[i..<Suc steps] = i # [Suc i..<Suc steps]"
      by (simp add: upt_conv_Cons)
    show ?thesis
      apply (subst sampleCubic_loop.simps)
      using True 1[OF True refl refl refl refl]
      by (simp add: Let_def up pt del: upt_Suc)
  next
    case False
    then show ?thesis by (subst sampleCubic_loop.simps) simp
  qed
qed

lemma sampleQuadratic_loop_eq:
  "sampleQuadratic_loop p0 p1 p2 steps i pts =
     pts @ map (\<lambda>k. bezier2 p0 p1 p2 (real k / real steps)) [i..<Suc steps]"
proof (induction p0 p1 p2 steps i pts rule: sampleQuadratic_loop.induct)
  case (1 p0 p1 p2 steps i pts)
  show ?case
  proof (cases "i \<le> steps")
    case True
    have pt: "bezier2 p0 p1 p2 t =
      ((1-t)*(1-t)*fst p0 + 2*(1-t)*t*fst p1 + t*t*fst p2,
       (1-t)*(1-t)*snd p0 + 2*(1-t)*t*snd p1 + t*t*snd p2)" for t
      by (simp add: bezier2_def lerp_def algebra_simps)
    from True have up: "[i..<Suc steps] = i # [Suc i..<Suc steps]"
      by (simp add: upt_conv_Cons)
    show ?thesis
      apply (subst sampleQuadratic_loop.simps)
      using True 1[OF True refl refl refl refl]
      by (simp add: Let_def up pt del: upt_Suc)
  next
    case False
    then show ?thesis by (subst sampleQuadratic_loop.simps) simp
  qed
qed

lemma upt_1_to_8: "[1..<Suc 8] = [1, 2, 3, 4, 5, 6, 7, 8::nat]"
  by (simp add: upt_rec)

lemma bezier3_at_1: "bezier3 p0 p1 p2 p3 1 = p3"
  by (simp add: bezier3_def bezier2_def lerp_def)

lemma bezier2_at_1: "bezier2 p0 p1 p2 1 = p2"
  by (simp add: bezier2_def lerp_def)

text \<open>
  C4. With the fixed step count 8, \<open>sampleCubic\<close> and \<open>sampleQuadratic\<close> return exactly
  8 points, the Bezier evaluations at \<open>t = i/8\<close> for \<open>i = 1, \<dots>, 8\<close> in this order. The
  parameter \<open>t = 0\<close> (the start point, which the cursor already holds) is not sampled,
  and the last point is the end point of the segment.
\<close>

theorem curve_sampler_bezier:
  "sampleCubic x0 y0 x1 y1 x2 y2 x3 y3 BEZIER_STEPS =
     map (\<lambda>i. bezier3 (x0, y0) (x1, y1) (x2, y2) (x3, y3) (real i / 8)) [1, 2, 3, 4, 5, 6, 7, 8]
   \<and> length (sampleCubic x0 y0 x1 y1 x2 y2 x3 y3 BEZIER_STEPS) = 8
   \<and> last (sampleCubic x0 y0 x1 y1 x2 y2 x3 y3 BEZIER_STEPS) = (x3, y3)
   \<and> sampleQuadratic x0 y0 x1 y1 x2 y2 BEZIER_STEPS =
     map (\<lambda>i. bezier2 (x0, y0) (x1, y1) (x2, y2) (real i / 8)) [1, 2, 3, 4, 5, 6, 7, 8]
   \<and> length (sampleQuadratic x0 y0 x1 y1 x2 y2 BEZIER_STEPS) = 8
   \<and> last (sampleQuadratic x0 y0 x1 y1 x2 y2 BEZIER_STEPS) = (x2, y2)"
proof -
  have c: "sampleCubic x0 y0 x1 y1 x2 y2 x3 y3 BEZIER_STEPS =
     map (\<lambda>i. bezier3 (x0, y0) (x1, y1) (x2, y2) (x3, y3) (real i / 8)) [1, 2, 3, 4, 5, 6, 7, 8]"
    unfolding sampleCubic_def BEZIER_STEPS_def sampleCubic_loop_eq upt_1_to_8 by simp
  have q: "sampleQuadratic x0 y0 x1 y1 x2 y2 BEZIER_STEPS =
     map (\<lambda>i. bezier2 (x0, y0) (x1, y1) (x2, y2) (real i / 8)) [1, 2, 3, 4, 5, 6, 7, 8]"
    unfolding sampleQuadratic_def BEZIER_STEPS_def sampleQuadratic_loop_eq upt_1_to_8 by simp
  show ?thesis
    unfolding c q by (simp add: bezier3_at_1 bezier2_at_1)
qed

section \<open>Properties of the glyph outline extractor\<close>

lemma step_flush_related:
  assumes "contours s = filter (\<lambda>c. 2 < length c) (contours s')" "current s = current s'"
          "cx s = cx s'" "cy s = cy s'"
  shows "contours (pathToContours_step s c) = filter (\<lambda>c. 2 < length c) (contours (flush_step s' c))
       \<and> current (pathToContours_step s c) = current (flush_step s' c)
       \<and> cx (pathToContours_step s c) = cx (flush_step s' c)
       \<and> cy (pathToContours_step s c) = cy (flush_step s' c)"
  using assms by (cases c) (simp_all add: Let_def)

lemma loop_flush_related:
  assumes "contours s = filter (\<lambda>c. 2 < length c) (contours s')" "current s = current s'"
          "cx s = cx s'" "cy s = cy s'"
  shows "contours (pathToContours_loop s cs) = filter (\<lambda>c. 2 < length c) (contours (flush_loop s' cs))
       \<and> current (pathToContours_loop s cs) = current (flush_loop s' cs)"
  using assms
proof (induction cs arbitrary: s s')
  case Nil
  then show ?case by simp
next
  case (Cons c cs)
  from step_flush_related[OF Cons.prems, of c] show ?case
    by (simp add: Cons.IH)
qed

lemma pathToContours_filter:
  "pathToContours commands scale = filter (\<lambda>c. 2 < length c) (flushed_buffers commands)"
  using loop_flush_related[of "\<lparr>contours = [], current = [], cx = 0, cy = 0\<rparr>"
          "\<lparr>contours = [], current = [], cx = 0, cy = 0\<rparr>" commands]
  by (simp add: pathToContours_def flushed_buffers_def Let_def)

text \<open>
  C3, as the code has it. The contours that \<open>pathToContours\<close> returns are exactly the
  buffers of at least 3 points among those let go of at a move command, at a close
  command and at the end of the path; a buffer of fewer than 3 points is dropped, and
  \<open>buildText\<close> makes no polygon of a contour of fewer than 3 points. The points are
  counted, not compared: nothing requires them to be distinct.
\<close>

theorem contours_at_least_3_points:
  "pathToContours commands scale = filter (\<lambda>c. 3 \<le> length c) (flushed_buffers commands)
   \<and> list_all (\<lambda>c. 3 \<le> length c) (pathToContours commands scale)
   \<and> (length pts < 3 \<longrightarrow> contour_callback jscad cursorX allPolygons pts = allPolygons)"
proof -
  have "(\<lambda>c::point list. 2 < length c) = (\<lambda>c. 3 \<le> length c)" by auto
  then show ?thesis
    by (auto simp: pathToContours_filter contour_callback_def list_all_iff)
qed

theorem contours_at_least_3_points_witness:
  "flushed_buffers [M 0 0, L 1 0, Z, M 0 0, L 1 0, L 1 1, Z]
     = [[], [(0, 0), (1, 0)], [], [(0, 0), (1, 0), (1, 1)], []]
   \<and> pathToContours [M 0 0, L 1 0, Z, M 0 0, L 1 0, L 1 1, Z] 1 = [[(0, 0), (1, 0), (1, 1)]]
   \<and> length [(0, 0), (1, 0) :: point] < 3
   \<and> contour_callback sample_jscad 0 [] [(0, 0), (1, 0)] = []"
proof -
  have f: "flushed_buffers [M 0 0, L 1 0, Z, M 0 0, L 1 0, L 1 1, Z]
     = [[], [(0, 0), (1, 0)], [], [(0, 0), (1, 0), (1, 1)], []]"
    by (simp add: flushed_buffers_def)
  show ?thesis
    using contours_at_least_3_points
      [of "[M 0 0, L 1 0, Z, M 0 0, L 1 0, L 1 1, Z]" 1 "[(0, 0), (1, 0)]" sample_jscad 0 "[]"]
    by (simp add: f)
qed

text \<open>
  C3, as the claim states it, fails: a path that moves to a point and draws two lines
  to the same point gives a contour of 3 points of which only 1 is distinct.
\<close>

theorem contours_distinct_counterexample:
  "\<not> contours_have_3_distinct [M 0 0, L 0 0, L 0 0, Z]"
  by (simp add: contours_have_3_distinct_def pathToContours_def distinct_points_def)

section \<open>Properties of the mesh conversion\<close>

lemma pushVertex_coords: "pushVertex arr (Some v) = arr @ vertex_coords v"
  by (cases v) simp_all

lemma fan_loop_eq:
  "Suc 0 \<le> i \<Longrightarrow> fan_loop verts i positions =
     positions @ concat (map (\<lambda>k. triangle_coords (verts ! 0, verts ! k, verts ! Suc k))
                             [i..<length verts - Suc 0])"
proof (induction verts i positions rule: fan_loop.induct)
  case (1 verts i positions)
  show ?case
  proof (cases "int i < int (length verts) - 1")
    case True
    then have lt: "i < length verts - Suc 0" by simp
    then have up: "[i..<length verts - Suc 0] = i # [Suc i..<length verts - Suc 0]"
      by (simp add: upt_conv_Cons)
    from lt 1(2) have v: "vertex_at verts 0 = Some (verts ! 0)" "vertex_at verts i = Some (verts ! i)"
       "vertex_at verts (Suc i) = Some (verts ! Suc i)"
      by (auto simp add: vertex_at_def)
    have ih: "fan_loop verts (Suc i) ps
       = ps @ concat (map (\<lambda>k. triangle_coords (verts ! 0, verts ! k, verts ! Suc k))
                          [Suc i..<length verts - Suc 0])"
      if "ps = pushVertex (pushVertex (pushVertex positions (vertex_at verts 0))
                                  (vertex_at verts i)) (vertex_at verts (i + 1))" for ps
      using 1(1)[OF True] that by simp
    have "fan_loop verts i positions = fan_loop verts (Suc i)
          (positions @ vertex_coords (verts ! 0) @ vertex_coords (verts ! i)
             @ vertex_coords (verts ! Suc i))"
      apply (subst fan_loop.simps)
      using True by (simp add: v pushVertex_coords)
    also have "\<dots> = (positions @ vertex_coords (verts ! 0) @ vertex_coords (verts ! i)
             @ vertex_coords (verts ! Suc i))
       @ concat (map (\<lambda>k. triangle_coords (verts ! 0, verts ! k, verts ! Suc k))
                     [Suc i..<length verts - Suc 0])"
      by (rule ih) (simp add: v pushVertex_coords)
    finally show ?thesis
      by (simp add: up triangle_coords_def)
  next
    case False
    then have "\<not> i < length verts - Suc 0" by linarith
    with False show ?thesis by (subst fan_loop.simps) simp
  qed
qed

lemma length_vertex_coords: "recognised v \<Longrightarrow> length (vertex_coords v) = 3"
  by (cases v) (simp_all add: recognised_def)

lemma length_concat_const:
  "(\<And>x. x \<in> set xs \<Longrightarrow> length (f x) = c) \<Longrightarrow> length (concat (map f xs)) = c * length xs"
  by (induction xs) simp_all

lemma face_positions_fan:
  "3 \<le> length vs \<Longrightarrow> face_positions positions \<lparr>vertices = Some vs\<rparr>
        = positions @ concat (map triangle_coords (fan_triangles vs))"
  using fan_loop_eq[of 1 vs positions]
  by (simp add: face_positions_def fan_triangles_def comp_def)

lemma fan_triangles_coords_length:
  assumes "list_all recognised vs"
  shows "length (concat (map triangle_coords (fan_triangles vs))) = 9 * (length vs - 2)"
proof -
  have "length (concat (map triangle_coords (fan_triangles vs))) = 9 * length (fan_triangles vs)"
  proof (rule length_concat_const)
    fix t assume "t \<in> set (fan_triangles vs)"
    then obtain i where i: "1 \<le> i" "i < length vs - 1" and t: "t = (vs ! 0, vs ! i, vs ! (i + 1))"
      by (auto simp: fan_triangles_def)
    from i have "0 < length vs" "i < length vs" "i + 1 < length vs" by linarith+
    with assms have "recognised (vs ! 0)" "recognised (vs ! i)" "recognised (vs ! (i + 1))"
      unfolding list_all_length by blast+
    then show "length (triangle_coords t) = 9"
      by (simp add: t triangle_coords_def length_vertex_coords)
  qed
  then show ?thesis by (simp add: fan_triangles_def)
qed

lemma foldl_face_positions:
  "foldl face_positions acc fs = acc @ concat (map (face_positions []) fs)"
proof (induction fs arbitrary: acc)
  case Nil
  then show ?case by simp
next
  case (Cons f fs)
  have "face_positions acc f = acc @ face_positions [] f"
  proof (cases "vertices f")
    case None
    then show ?thesis by (simp add: face_positions_def)
  next
    case (Some vs)
    then show ?thesis
      using fan_loop_eq[of 1 vs acc] fan_loop_eq[of 1 vs "[]"]
      by (simp add: face_positions_def)
  qed
  then show ?case by (simp add: Cons.IH)
qed

text \<open>
  C5. A face of \<open>n \<ge> 3\<close> vertices contributes the \<open>n - 2\<close> triangles of the fan from
  its first vertex, \<open>(v0, vi, v(i+1))\<close> for \<open>i = 1, \<dots>, n - 2\<close>, in this order; when every
  vertex has one of the three shapes that \<open>pushVertex\<close> reads, that is \<open>9 (n - 2)\<close>
  numbers appended to the position buffer. A face of fewer than 3 vertices and a face
  without a vertex list leave the buffer as it is. The buffer of a solid is the
  concatenation of the contributions of its faces.
\<close>

theorem fan_triangulation:
  "(3 \<le> length vs \<longrightarrow>
      face_positions positions \<lparr>vertices = Some vs\<rparr>
        = positions @ concat (map triangle_coords (fan_triangles vs))
      \<and> length (fan_triangles vs) = length vs - 2
      \<and> (list_all recognised vs \<longrightarrow>
           length (face_positions positions \<lparr>vertices = Some vs\<rparr>)
             = length positions + 9 * (length vs - 2)))
   \<and> (length vs < 3 \<longrightarrow> face_positions positions \<lparr>vertices = Some vs\<rparr> = positions)
   \<and> face_positions positions \<lparr>vertices = None\<rparr> = positions
   \<and> jscadToThreeGeometry (Geom3 (Some fs)) = concat (map (face_positions []) fs)"
proof (intro conjI impI)
  assume "3 \<le> length vs"
  then show "face_positions positions \<lparr>vertices = Some vs\<rparr>
        = positions @ concat (map triangle_coords (fan_triangles vs))"
    by (rule face_positions_fan)
next
  show "length (fan_triangles vs) = length vs - 2" by (simp add: fan_triangles_def)
next
  assume "3 \<le> length vs" "list_all recognised vs"
  then show "length (face_positions positions \<lparr>vertices = Some vs\<rparr>)
             = length positions + 9 * (length vs - 2)"
    by (simp add: face_positions_fan fan_triangles_coords_length)
next
  assume "length vs < 3"
  then show "face_positions positions \<lparr>vertices = Some vs\<rparr> = positions"
    by (simp add: face_positions_def)
next
  show "face_positions positions \<lparr>vertices = None\<rparr> = positions"
    by (simp add: face_positions_def)
next
  show "jscadToThreeGeometry (Geom3 (Some fs)) = concat (map (face_positions []) fs)"
    by (simp add: foldl_face_positions)
qed

theorem fan_triangulation_witness:
  "3 \<le> length [VArray [0, 0, 0], VArray [1, 0, 0], VPos [1, 1, 0], VXYZ 0 (Some 1) (Some 0)]
   \<and> list_all recognised [VArray [0, 0, 0], VArray [1, 0, 0], VPos [1, 1, 0], VXYZ 0 (Some 1) (Some 0)]
   \<and> face_positions [] \<lparr>vertices = Some [VArray [0, 0, 0], VArray [1, 0, 0], VPos [1, 1, 0],
                                         VXYZ 0 (Some 1) (Some 0)]\<rparr>
       = map Some [0, 0, 0, 1, 0, 0, 1, 1, 0,   0, 0, 0, 1, 1, 0, 0, 1, 0]
   \<and> length [VArray [0, 0, 0], VArray [1, 0, 0]] < 3
   \<and> face_positions [Some 7] \<lparr>vertices = Some [VArray [0, 0, 0], VArray [1, 0, 0]]\<rparr> = [Some 7]"
proof -
  have ft: "fan_triangles [VArray [0, 0, 0], VArray [1, 0, 0], VPos [1, 1, 0], VXYZ 0 (Some 1) (Some 0)]
     = [(VArray [0, 0, 0], VArray [1, 0, 0], VPos [1, 1, 0]),
        (VArray [0, 0, 0], VPos [1, 1, 0], VXYZ 0 (Some 1) (Some 0))]"
    by (simp add: fan_triangles_def upt_rec)
  show ?thesis
    using fan_triangulation
        [of "[VArray [0, 0, 0], VArray [1, 0, 0], VPos [1, 1, 0], VXYZ 0 (Some 1) (Some 0)]" "[]" "[]"]
      fan_triangulation [of "[VArray [0, 0, 0], VArray [1, 0, 0]]" "[Some 7]" "[]"]
    by (simp add: ft triangle_coords_def elem_def recognised_def)
qed

section \<open>Properties of the binary mesh format\<close>














text \<open>
  The buffer that \<open>exportRegionSTL\<close> downloads is the first one only: were the serializer
  to hand the file back as an array of several buffers (header, count, triangles), the
  download would hold the 80 header bytes and nothing else.
\<close>

lemma export_keeps_first_buffer:
  "exportRegionSTL (\<lambda>solids. BufferArray [stl_header c, le32 (of_nat (length ts)),
                                           concat (map triangle_bytes ts)]) rg (Some g) dsg
     = Some \<lparr>filename = design_id dsg @ ''__'' @ region_id rg @ ''.stl'',
             content = Some (stl_header c)\<rparr>"
  by (simp add: exportRegionSTL_def Let_def)

section \<open>Properties of the polygon offsetter\<close>

lemma smod_nonneg: "0 \<le> a \<Longrightarrow> 0 < b \<Longrightarrow> a smod b = a mod (b::int)"
  by (cases "a = 0") (simp_all add: smod_int_alt_def sgn_if)

lemma index_prev:
  assumes "i < length points"
  shows "index_opt points ((int i - 1 + int (length points)) smod int (length points))
           = Some (points ! prev_index (length points) i)"
proof -
  let ?n = "length points"
  from assms have n: "0 < ?n" by auto
  have "1 \<le> i + ?n" using n by linarith
  then have "int (i + ?n - 1) = int (i + ?n) - 1" by (subst of_nat_diff) simp_all
  then have a: "int i - 1 + int ?n = int (i + ?n - 1)" by simp
  have "(int i - 1 + int ?n) smod int ?n = int (i + ?n - 1) mod int ?n"
    unfolding a using n by (intro smod_nonneg) simp_all
  also have "\<dots> = int ((i + ?n - 1) mod ?n)" by (simp add: zmod_int)
  finally have e: "(int i - 1 + int ?n) smod int ?n = int ((i + ?n - 1) mod ?n)" .
  have "(i + ?n - 1) mod ?n < ?n" using n by simp
  then show ?thesis unfolding e by (simp add: index_opt_def prev_index_def)
qed

lemma index_next:
  assumes "i < length points"
  shows "index_opt points ((int i + 1) smod int (length points))
           = Some (points ! next_index (length points) i)"
proof -
  let ?n = "length points"
  from assms have n: "0 < ?n" by auto
  have "(int i + 1) smod int ?n = (int i + 1) mod int ?n"
    using n by (intro smod_nonneg) simp_all
  also have "\<dots> = int ((i + 1) mod ?n)" by (simp add: zmod_int add.commute)
  finally have e: "(int i + 1) smod int ?n = int ((i + 1) mod ?n)" .
  have "(i + 1) mod ?n < ?n" using n by simp
  then show ?thesis unfolding e by (simp add: index_opt_def next_index_def)
qed

lemma shrink_callback_Inr:
  "i < length points \<Longrightarrow>
     shrink_callback points amount p i
       = Inr (shrink_vertex (points ! prev_index (length points) i) p
                            (points ! next_index (length points) i) amount)"
  by (simp add: shrink_callback_def Let_def index_prev index_next)

lemma map_indexed_Inr:
  "(\<And>j. j < length xs \<Longrightarrow> f (xs ! j) (k + j) = Inr (g (xs ! j) (k + j))) \<Longrightarrow>
     map_indexed f k xs = Inr (map (\<lambda>j. g (xs ! j) (k + j)) [0..<length xs])"
proof (induction xs arbitrary: k)
  case Nil
  then show ?case by simp
next
  case (Cons x xs)
  have h: "f x k = Inr (g x k)" using Cons.prems[of 0] by simp
  have t: "map_indexed f (Suc k) xs = Inr (map (\<lambda>j. g (xs ! j) (Suc k + j)) [0..<length xs])"
  proof (rule Cons.IH)
    fix j assume "j < length xs"
    then show "f (xs ! j) (Suc k + j) = Inr (g (xs ! j) (Suc k + j))"
      using Cons.prems[of "Suc j"] by simp
  qed
  have m: "map (\<lambda>j. g ((x # xs) ! j) (k + j)) [0..<length (x # xs)]
          = g x k # map (\<lambda>j. g (xs ! j) (Suc k + j)) [0..<length xs]"
    by (simp add: upt_conv_Cons map_Suc_upt[symmetric] del: upt_Suc)
  show ?case unfolding m by (simp add: h t)
qed

lemma shrinkPolygon_eq:
  "shrinkPolygon points amount =
     Inr (map (\<lambda>i. shrink_vertex (points ! prev_index (length points) i) (points ! i)
                                  (points ! next_index (length points) i) amount)
              [0..<length points])"
  unfolding shrinkPolygon_def
  using map_indexed_Inr[of points "shrink_callback points amount" 0
      "\<lambda>p i. shrink_vertex (points ! prev_index (length points) i) p
                                  (points ! next_index (length points) i) amount"]
  by (simp add: shrink_callback_Inr)

lemma or_one_nonzero: "or_one v \<noteq> 0"
  by (simp add: or_one_def)

lemma vec_len_nonneg: "0 \<le> vec_len x y"
  by (simp add: vec_len_def)

lemma or_one_vec_len_pos: "0 < or_one (vec_len x y)"
  using vec_len_nonneg[of x y] by (auto simp: or_one_def)

lemma vec_len_zero_iff: "vec_len x y = 0 \<longleftrightarrow> x = 0 \<and> y = 0"
  by (auto simp: vec_len_def real_sqrt_eq_zero_cancel_iff add_nonneg_eq_0_iff)



lemma vec_len_sq: "vec_len x y * vec_len x y = x*x + y*y"
  by (simp add: vec_len_def)

lemma vec_len_pos: "x \<noteq> 0 \<or> y \<noteq> 0 \<Longrightarrow> 0 < vec_len x y"
  using vec_len_nonneg[of x y] vec_len_zero_iff[of x y] by auto

lemma vec_len_rot: "vec_len x y = vec_len y (- x)"
  by (simp add: vec_len_def add.commute)

lemma offset_algebra:
  fixes e1x e1y e2x e2y l1 l2 lb d :: real
  assumes l1: "0 < l1" "l1 * l1 = e1x*e1x + e1y*e1y"
      and l2: "0 < l2" "l2 * l2 = e2x*e2x + e2y*e2y"
      and lb: "0 < lb" "lb * lb = (e1y/l1 + e2y/l2)*(e1y/l1 + e2y/l2) + (- e1x/l1 + - e2x/l2)*(- e1x/l1 + - e2x/l2)"
  shows "lb * lb = 2 + 2 * ((e1x*e2x + e1y*e2y) / (l1 * l2))"
    and "e1x * ((- e1x/l1 + - e2x/l2) / lb * d) - e1y * ((e1y/l1 + e2y/l2) / lb * d) = - (d * l1 * lb / 2)"
    and "e2x * ((- e1x/l1 + - e2x/l2) / lb * d) - e2y * ((e1y/l1 + e2y/l2) / lb * d) = - (d * l2 * lb / 2)"
    and "lb \<le> 2"
proof -
  have u1: "(e1x/l1)*(e1x/l1) + (e1y/l1)*(e1y/l1) = 1"
  proof -
    have "(e1x/l1)*(e1x/l1) + (e1y/l1)*(e1y/l1) = (e1x*e1x + e1y*e1y) / (l1*l1)"
      by (simp add: add_divide_distrib)
    also have "\<dots> = (l1*l1) / (l1*l1)" by (simp only: l1(2))
    also have "\<dots> = 1" using l1(1) by simp
    finally show ?thesis .
  qed
  have u2: "(e2x/l2)*(e2x/l2) + (e2y/l2)*(e2y/l2) = 1"
  proof -
    have "(e2x/l2)*(e2x/l2) + (e2y/l2)*(e2y/l2) = (e2x*e2x + e2y*e2y) / (l2*l2)"
      by (simp add: add_divide_distrib)
    also have "\<dots> = (l2*l2) / (l2*l2)" by (simp only: l2(2))
    also have "\<dots> = 1" using l2(1) by simp
    finally show ?thesis .
  qed
  define a1 where "a1 = e1x/l1"
  define b1 where "b1 = e1y/l1"
  define a2 where "a2 = e2x/l2"
  define b2 where "b2 = e2y/l2"
  have e: "e1x = a1 * l1" "e1y = b1 * l1" "e2x = a2 * l2" "e2y = b2 * l2"
    using l1 l2 by (simp_all add: a1_def b1_def a2_def b2_def)
  have n1: "a1*a1 + b1*b1 = 1" and n2: "a2*a2 + b2*b2 = 1"
    using u1 u2 by (simp_all add: a1_def b1_def a2_def b2_def)
  have lbq: "lb * lb = (b1 + b2)*(b1 + b2) + (a1 + a2)*(a1 + a2)"
    using lb(2) by (simp add: a1_def b1_def a2_def b2_def algebra_simps)
  have lbq2: "lb * lb = 2 + 2 * (a1*a2 + b1*b2)"
  proof -
    have "(b1 + b2)*(b1 + b2) + (a1 + a2)*(a1 + a2) = (a1*a1 + b1*b1) + (a2*a2 + b2*b2) + 2 * (a1*a2 + b1*b2)"
      by (simp add: algebra_simps)
    then show ?thesis using lbq n1 n2 by simp
  qed
  have dot: "(e1x*e2x + e1y*e2y) / (l1 * l2) = a1*a2 + b1*b2"
    using l1(1) l2(1) by (simp add: a1_def b1_def a2_def b2_def field_simps)
  show "lb * lb = 2 + 2 * ((e1x*e2x + e1y*e2y) / (l1 * l2))"
    by (simp only: lbq2 dot)
  have half: "1 + (a1*a2 + b1*b2) = lb * lb / 2" using lbq2 by simp
  have s1: "a1 * (- a1 + - a2) - b1 * (b1 + b2) = - (lb * lb / 2)"
  proof -
    have "a1 * (- a1 + - a2) - b1 * (b1 + b2) = - ((a1*a1 + b1*b1) + (a1*a2 + b1*b2))"
      by (simp add: algebra_simps)
    then show ?thesis using n1 half by simp
  qed
  have s2: "a2 * (- a1 + - a2) - b2 * (b1 + b2) = - (lb * lb / 2)"
  proof -
    have "a2 * (- a1 + - a2) - b2 * (b1 + b2) = - ((a2*a2 + b2*b2) + (a1*a2 + b1*b2))"
      by (simp add: algebra_simps)
    then show ?thesis using n2 half by simp
  qed
  have "e1x * ((- e1x/l1 + - e2x/l2) / lb * d) - e1y * ((e1y/l1 + e2y/l2) / lb * d)
        = (a1 * (- a1 + - a2) - b1 * (b1 + b2)) * (l1 * d / lb)"
    using l1(1) l2(1) lb(1) by (simp add: a1_def b1_def a2_def b2_def field_simps)
  also have "\<dots> = - (lb * lb / 2) * (l1 * d / lb)" by (simp only: s1)
  also have "\<dots> = - (d * l1 * lb / 2)" using lb(1) by (simp add: field_simps)
  finally show "e1x * ((- e1x/l1 + - e2x/l2) / lb * d) - e1y * ((e1y/l1 + e2y/l2) / lb * d) = - (d * l1 * lb / 2)" .
  have "e2x * ((- e1x/l1 + - e2x/l2) / lb * d) - e2y * ((e1y/l1 + e2y/l2) / lb * d)
        = (a2 * (- a1 + - a2) - b2 * (b1 + b2)) * (l2 * d / lb)"
    using l1(1) l2(1) lb(1) by (simp add: a1_def b1_def a2_def b2_def field_simps)
  also have "\<dots> = - (lb * lb / 2) * (l2 * d / lb)" by (simp only: s2)
  also have "\<dots> = - (d * l2 * lb / 2)" using lb(1) by (simp add: field_simps)
  finally show "e2x * ((- e1x/l1 + - e2x/l2) / lb * d) - e2y * ((e1y/l1 + e2y/l2) / lb * d) = - (d * l2 * lb / 2)" .
  have "0 \<le> (a1 - a2)*(a1 - a2) + (b1 - b2)*(b1 - b2)" by simp
  also have "\<dots> = (a1*a1 + b1*b1) + (a2*a2 + b2*b2) - 2 * (a1*a2 + b1*b2)" by (simp add: algebra_simps)
  finally have "a1*a2 + b1*b2 \<le> 1" using n1 n2 by simp
  then have "lb * lb \<le> 2 * 2" using lbq2 by simp
  then have "lb\<^sup>2 \<le> 2\<^sup>2" by (simp add: power2_eq_square)
  then show "lb \<le> 2" by (rule power2_le_imp_le) simp
qed

lemma shrink_vertex_offset:
  fixes prev p "next" :: point and d :: real
  defines "c \<equiv> shrink_consts prev p next" and "q \<equiv> shrink_vertex prev p next d"
  assumes np: "prev \<noteq> p" and nn: "next \<noteq> p" and nb: "sc_bx c \<noteq> 0 \<or> sc_by c \<noteq> 0"
  shows "vec_len (fst q - fst p) (snd q - snd p) = \<bar>d\<bar>"
    and "side_of (prev, p) q = - (d * sc_l1 c * sc_lb c / 2)"
    and "side_of (p, next) q = - (d * sc_l2 c * sc_lb c / 2)"
    and "dist_line q (prev, p) = \<bar>d\<bar> * (sc_lb c / 2)"
    and "dist_line q (p, next) = \<bar>d\<bar> * (sc_lb c / 2)"
    and "0 < sc_lb c" and "sc_lb c \<le> 2"
    and "sc_lb c * sc_lb c = 2 + 2 * ((sc_e1x c * sc_e2x c + sc_e1y c * sc_e2y c) / (sc_l1 c * sc_l2 c))"
proof -
  define e1x where "e1x = fst p - fst prev"
  define e1y where "e1y = snd p - snd prev"
  define e2x where "e2x = fst next - fst p"
  define e2y where "e2y = snd next - snd p"
  define l1 where "l1 = vec_len e1y (- e1x)"
  define l2 where "l2 = vec_len e2y (- e2x)"
  define bx where "bx = e1y/l1 + e2y/l2"
  define by' where "by' = - e1x/l1 + - e2x/l2"
  define lb where "lb = vec_len bx by'"
  from np have ne1: "e1y \<noteq> 0 \<or> - e1x \<noteq> 0"
    by (auto simp: e1x_def e1y_def prod_eq_iff)
  from nn have ne2: "e2y \<noteq> 0 \<or> - e2x \<noteq> 0"
    by (auto simp: e2x_def e2y_def prod_eq_iff)
  have l1: "0 < l1" "l1 * l1 = e1x*e1x + e1y*e1y"
    using vec_len_pos[OF ne1] by (simp_all add: l1_def vec_len_sq)
  have l2: "0 < l2" "l2 * l2 = e2x*e2x + e2y*e2y"
    using vec_len_pos[OF ne2] by (simp_all add: l2_def vec_len_sq)
  have o1: "or_one l1 = l1" and o2: "or_one l2 = l2"
    using l1(1) l2(1) by (simp_all add: or_one_def)
  have cf: "sc_e1x c = e1x" "sc_e1y c = e1y" "sc_e2x c = e2x" "sc_e2y c = e2y"
      "sc_l1 c = l1" "sc_l2 c = l2" "sc_bx c = bx" "sc_by c = by'" "sc_lb c = or_one lb"
    unfolding c_def shrink_consts_def Let_def e1x_def[symmetric] e1y_def[symmetric]
      e2x_def[symmetric] e2y_def[symmetric] l1_def[symmetric] l2_def[symmetric] o1 o2
      bx_def[symmetric] by'_def[symmetric] lb_def[symmetric]
    by (simp_all only: shrink_record.simps)
  from nb have "bx \<noteq> 0 \<or> by' \<noteq> 0" by (simp add: cf)
  then have lbp: "0 < lb" unfolding lb_def by (rule vec_len_pos)
  then have o3: "or_one lb = lb" by (simp add: or_one_def)
  have lbq: "lb * lb = (e1y/l1 + e2y/l2)*(e1y/l1 + e2y/l2) + (- e1x/l1 + - e2x/l2)*(- e1x/l1 + - e2x/l2)"
    by (simp add: lb_def vec_len_sq bx_def by'_def)
  note alg = offset_algebra[OF l1 l2 lbp lbq]
  have q: "fst q = fst p + bx / lb * d" "snd q = snd p + by' / lb * d"
    by (simp_all add: q_def shrink_vertex_def Let_def c_def[symmetric] cf o3)
  show "0 < sc_lb c" by (simp add: cf o3 lbp)
  show "sc_lb c \<le> 2" using alg(4) by (simp add: cf o3)
  show "sc_lb c * sc_lb c = 2 + 2 * ((sc_e1x c * sc_e2x c + sc_e1y c * sc_e2y c) / (sc_l1 c * sc_l2 c))"
    using alg(1) by (simp add: cf o3)
  have "vec_len (fst q - fst p) (snd q - snd p) * vec_len (fst q - fst p) (snd q - snd p)
        = (bx*bx + by'*by') * (d*d) / (lb*lb)"
  proof -
    have "(bx/lb*d)*(bx/lb*d) = bx*bx*(d*d)/(lb*lb)" by simp
    moreover have "(by'/lb*d)*(by'/lb*d) = by'*by'*(d*d)/(lb*lb)" by simp
    ultimately have "(bx/lb*d)*(bx/lb*d) + (by'/lb*d)*(by'/lb*d) = (bx*bx + by'*by') * (d*d) / (lb*lb)"
      by (simp only: add_divide_distrib[symmetric] distrib_right[symmetric])
    then show ?thesis by (simp add: vec_len_sq q)
  qed
  also have "bx*bx + by'*by' = lb * lb" by (simp add: lb_def vec_len_sq)
  also have "lb * lb * (d * d) / (lb * lb) = d * d" using lbp by simp
  finally have "sqrt (vec_len (fst q - fst p) (snd q - snd p) * vec_len (fst q - fst p) (snd q - snd p))
                  = sqrt (d * d)"
    by simp
  then have "\<bar>vec_len (fst q - fst p) (snd q - snd p)\<bar> = \<bar>d\<bar>"
    by (simp only: real_sqrt_abs2)
  then show "vec_len (fst q - fst p) (snd q - snd p) = \<bar>d\<bar>"
    using vec_len_nonneg[of "fst q - fst p" "snd q - snd p"] by simp
  have s1: "side_of (prev, p) q = e1x * (by' / lb * d) - e1y * (bx / lb * d)"
    by (simp add: side_of_def q e1x_def e1y_def algebra_simps)
  show r1: "side_of (prev, p) q = - (d * sc_l1 c * sc_lb c / 2)"
    unfolding s1 using alg(2) by (simp add: cf o3 bx_def by'_def)
  have s2: "side_of (p, next) q = e2x * (by' / lb * d) - e2y * (bx / lb * d)"
    by (simp add: side_of_def q e2x_def e2y_def algebra_simps)
  show r2: "side_of (p, next) q = - (d * sc_l2 c * sc_lb c / 2)"
    unfolding s2 using alg(3) by (simp add: cf o3 bx_def by'_def)
  have v1: "vec_len (fst (snd (prev, p)) - fst (fst (prev, p))) (snd (snd (prev, p)) - snd (fst (prev, p))) = l1"
    using vec_len_rot[of e1x e1y] by (simp add: l1_def e1x_def e1y_def)
  have v2: "vec_len (fst (snd (p, next)) - fst (fst (p, next))) (snd (snd (p, next)) - snd (fst (p, next))) = l2"
    using vec_len_rot[of e2x e2y] by (simp add: l2_def e2x_def e2y_def)
  show "dist_line q (prev, p) = \<bar>d\<bar> * (sc_lb c / 2)"
    unfolding dist_line_def v1 r1 using l1(1) lbp
    by (simp add: cf o3 abs_mult)
  show "dist_line q (p, next) = \<bar>d\<bar> * (sc_lb c / 2)"
    unfolding dist_line_def v2 r2 using l2(1) lbp
    by (simp add: cf o3 abs_mult)
qed

lemma upt_0_4: "[0..<4] = [0, 1, 2, 3::nat]"
  by (simp add: upt_rec)

lemma upt_0_3: "[0..<3] = [0, 1, 2::nat]"
  by (simp add: upt_rec)

lemma two_div_sqrt2: "2 / sqrt 2 = sqrt 2"
  by (rule real_div_sqrt) simp

lemma rect_vertex_0:
  assumes "0 < w" "0 < h"
  shows "shrink_vertex (x + w, y) (x, y) (x, y + h) d = (x + d / sqrt 2, y + d / sqrt 2)"
  using assms by (simp add: shrink_vertex_def shrink_consts_def Let_def vec_len_def or_one_def)

lemma rect_vertex_1:
  assumes "0 < w" "0 < h"
  shows "shrink_vertex (x, y) (x, y + h) (x + w, y + h) d = (x + d / sqrt 2, y + h - d / sqrt 2)"
  using assms by (simp add: shrink_vertex_def shrink_consts_def Let_def vec_len_def or_one_def)

lemma rect_vertex_2:
  assumes "0 < w" "0 < h"
  shows "shrink_vertex (x, y + h) (x + w, y + h) (x + w, y) d = (x + w - d / sqrt 2, y + h - d / sqrt 2)"
  using assms by (simp add: shrink_vertex_def shrink_consts_def Let_def vec_len_def or_one_def)

lemma rect_vertex_3:
  assumes "0 < w" "0 < h"
  shows "shrink_vertex (x + w, y + h) (x + w, y) (x, y) d = (x + w - d / sqrt 2, y + d / sqrt 2)"
  using assms by (simp add: shrink_vertex_def shrink_consts_def Let_def vec_len_def or_one_def)

lemma half_sqrt2: "d / sqrt 2 + d / sqrt 2 = d * sqrt 2"
proof -
  have "d / sqrt 2 + d / sqrt 2 = d * (2 / sqrt 2)" by simp
  then show ?thesis by (simp only: two_div_sqrt2)
qed

lemma shrink_rectangle:
  assumes "0 < w" "0 < h"
  shows "shrinkPolygon (cw_rectangle x y w h) d
       = Inr (cw_rectangle (x + d / sqrt 2) (y + d / sqrt 2) (w - d * sqrt 2) (h - d * sqrt 2))"
proof -
  have a: "x + d / sqrt 2 + (w - d * sqrt 2) = x + w - d / sqrt 2"
    using half_sqrt2[of d] by simp
  have b: "y + d / sqrt 2 + (h - d * sqrt 2) = y + h - d / sqrt 2"
    using half_sqrt2[of d] by simp
  show ?thesis
    unfolding shrinkPolygon_eq
    by (simp add: cw_rectangle_def upt_0_4 prev_index_def next_index_def
        rect_vertex_0[OF assms] rect_vertex_1[OF assms] rect_vertex_2[OF assms] rect_vertex_3[OF assms] a b)
qed

lemma signed_area_rectangle: "signed_area (cw_rectangle x y w h) = - (w * h)"
  by (simp add: signed_area_def shoelace_def cw_rectangle_def cross2_def algebra_simps)

lemma rectangle_area_shrinks:
  assumes "0 < w" "0 < h" "0 < d" "d * sqrt 2 \<le> min w h"
  shows "polygon_area (cw_rectangle (x + d / sqrt 2) (y + d / sqrt 2) (w - d * sqrt 2) (h - d * sqrt 2))
           = (w - d * sqrt 2) * (h - d * sqrt 2)"
    and "polygon_area (cw_rectangle x y w h) = w * h"
    and "(w - d * sqrt 2) * (h - d * sqrt 2) < w * h"
proof -
  have s: "0 < d * sqrt 2" using assms(3) by simp
  have w': "0 \<le> w - d * sqrt 2" "w - d * sqrt 2 < w" using assms(4) s by simp_all
  have h': "0 \<le> h - d * sqrt 2" "h - d * sqrt 2 < h" using assms(4) s by simp_all
  show "polygon_area (cw_rectangle (x + d / sqrt 2) (y + d / sqrt 2) (w - d * sqrt 2) (h - d * sqrt 2))
           = (w - d * sqrt 2) * (h - d * sqrt 2)"
    using w'(1) h'(1) by (simp add: polygon_area_def signed_area_rectangle abs_mult)
  show "polygon_area (cw_rectangle x y w h) = w * h"
    using assms(1,2) by (simp add: polygon_area_def signed_area_rectangle abs_mult)
  have "(w - d * sqrt 2) * (h - d * sqrt 2) \<le> (w - d * sqrt 2) * h"
    using w'(1) h'(2) by (intro mult_left_mono) simp_all
  also have "\<dots> < w * h" using w'(2) assms(2) by simp
  finally show "(w - d * sqrt 2) * (h - d * sqrt 2) < w * h" .
qed

lemma rectangle_clockwise_convex:
  assumes "0 < w" "0 < h"
  shows "clockwise (cw_rectangle x y w h)" and "convex_polygon (cw_rectangle x y w h)"
proof -
  have wh: "0 < w * h" using assms by simp
  show "clockwise (cw_rectangle x y w h)"
    using wh by (simp add: clockwise_def signed_area_rectangle)
  have "list_all (\<lambda>e. list_all (\<lambda>v. side_of e v \<le> 0) (cw_rectangle x y w h))
          (polygon_edges (cw_rectangle x y w h))"
    using assms wh by (simp add: cw_rectangle_def polygon_edges_def side_of_def mult_le_0_iff)
  then show "convex_polygon (cw_rectangle x y w h)"
    using wh assms by (simp add: convex_polygon_def signed_area_rectangle) (simp add: cw_rectangle_def)
qed

lemma sqrt_625: "sqrt 625 = 25" by (rule real_sqrt_unique) simp_all

lemma sqrt_36_25: "sqrt (36 / 25) = 6 / 5" by (rule real_sqrt_unique) (simp_all add: power2_eq_square)

lemma sqrt_9: "sqrt 9 = 3" by (rule real_sqrt_unique) simp_all

lemma triangle_vertex_1: "shrink_vertex (0, 0) (0, 25) (24, 18) 5 = (3, 21)"
  by (simp add: shrink_vertex_def shrink_consts_def Let_def vec_len_def or_one_def sqrt_625 sqrt_36_25)

lemma triangle_dist: "dist_segment (3, 21) ((0, 0), (0, 25)) = 3"
  by (simp add: dist_segment_def Let_def vec_len_def sqrt_9)

lemma min_list_real_le_hd: "min_list_real (x # xs) \<le> x"
  by (cases xs) simp_all

lemma triangle_consts:
  "sc_bx (shrink_consts (0, 0) (0, 25) (24, 18)) = 18 / 25"
  "sc_by (shrink_consts (0, 0) (0, 25) (24, 18)) = - (24 / 25)"
  "sc_lb (shrink_consts (0, 0) (0, 25) (24, 18)) = 6 / 5"
  by (simp_all add: shrink_consts_def Let_def vec_len_def or_one_def sqrt_625 sqrt_36_25)

lemma sqrt2_le_2: "sqrt 2 \<le> 2"
  by (rule real_le_lsqrt) simp_all

lemma shoelace_from_sum:
  "shoelace_from f ps = (\<Sum>i<length ps. cross2 (ps ! i) ((ps @ [f]) ! Suc i))"
proof (induction f ps rule: shoelace_from.induct)
  case (1 f)
  then show ?case by simp
next
  case (2 f p)
  then show ?case by simp
next
  case (3 f p q ps)
  have "(\<Sum>i<length (p # q # ps). cross2 ((p # q # ps) ! i) (((p # q # ps) @ [f]) ! Suc i))
      = cross2 p q + (\<Sum>i<length (q # ps). cross2 ((q # ps) ! i) (((q # ps) @ [f]) ! Suc i))"
    by (simp add: sum.lessThan_Suc_shift del: sum.lessThan_Suc)
  with 3 show ?case by simp
qed

lemma shoelace_sum:
  "shoelace ps = (\<Sum>i<length ps. cross2 (ps ! i) (ps ! next_index (length ps) i))"
proof (cases ps)
  case Nil
  then show ?thesis by (simp add: shoelace_def)
next
  case (Cons p rest)
  have "(ps @ [p]) ! Suc i = ps ! next_index (length ps) i" if "i < length ps" for i
  proof (cases "Suc i < length ps")
    case True
    then show ?thesis by (simp add: nth_append next_index_def)
  next
    case False
    with that have e: "Suc i = length ps" by simp
    then have "(ps @ [p]) ! Suc i = p" by (simp add: nth_append)
    moreover have "next_index (length ps) i = 0" using e by (simp add: next_index_def)
    ultimately show ?thesis using Cons by simp
  qed
  then have "(\<Sum>i<length ps. cross2 (ps ! i) ((ps @ [p]) ! Suc i))
           = (\<Sum>i<length ps. cross2 (ps ! i) (ps ! next_index (length ps) i))"
    by (intro sum.cong) simp_all
  then show ?thesis
    using Cons shoelace_from_sum[of p ps] by (simp add: shoelace_def)
qed

lemma next_index_less: "i < n \<Longrightarrow> next_index n i < n"
  by (simp add: next_index_def)

lemma prev_index_less: "i < n \<Longrightarrow> prev_index n i < n"
  by (simp add: prev_index_def)

lemma prev_next_index: "i < n \<Longrightarrow> prev_index n (next_index n i) = i"
proof -
  assume i: "i < n"
  show ?thesis
  proof (cases "Suc i < n")
    case True
    then have "next_index n i = Suc i" by (simp add: next_index_def)
    then have "prev_index n (next_index n i) = (i + n) mod n" by (simp add: prev_index_def)
    then show ?thesis using i by simp
  next
    case False
    with i have e: "Suc i = n" by simp
    then have "next_index n i = 0" by (simp add: next_index_def)
    then have "prev_index n (next_index n i) = (n - 1) mod n" by (simp add: prev_index_def)
    then show ?thesis using e by auto
  qed
qed

lemma next_prev_index: "i < n \<Longrightarrow> next_index n (prev_index n i) = i"
proof -
  assume i: "i < n"
  show ?thesis
  proof (cases i)
    case 0
    with i have "prev_index n i = n - 1" by (simp add: prev_index_def)
    then show ?thesis using i 0 by (simp add: next_index_def)
  next
    case (Suc k)
    with i have "prev_index n i = k" by (simp add: prev_index_def)
    then show ?thesis using i Suc by (simp add: next_index_def)
  qed
qed

lemma sum_shift_next:
  "(\<Sum>i<n. g i (next_index n i)) = (\<Sum>j<n. g (prev_index n j) j)"
  by (rule sum.reindex_bij_witness[where i = "prev_index n" and j = "next_index n"])
     (simp_all add: next_index_less prev_index_less prev_next_index next_prev_index)

lemma shrink_vertex_unit:
  "shrink_vertex prev p nxt d
     = (fst p + fst (bisector_unit prev p nxt) * d, snd p + snd (bisector_unit prev p nxt) * d)"
  by (simp add: shrink_vertex_def bisector_unit_def Let_def)

lemma cross2_expand:
  "cross2 (fst p + fst u * d, snd p + snd u * d) (fst q + fst v * d, snd q + snd v * d)
     = cross2 p q + d * (cross2 p v + cross2 u q) + d * d * cross2 u v"
  by (simp add: cross2_def algebra_simps)

lemma shoelace_shrink:
  assumes "shrinkPolygon ps d = Inr qs"
  shows "shoelace qs = shoelace ps + d * (\<Sum>j<length ps. mixed_term ps j)
           + d * d * (\<Sum>i<length ps. cross2 (unit_at ps i) (unit_at ps (next_index (length ps) i)))"
proof -
  let ?n = "length ps"
  let ?f = "\<lambda>i. shrink_vertex (ps ! prev_index ?n i) (ps ! i) (ps ! next_index ?n i) d"
  from assms have qs: "qs = map ?f [0..<?n]" by (simp add: shrinkPolygon_eq)
  then have len: "length qs = ?n" by simp
  have nth: "qs ! i = (fst (ps ! i) + fst (unit_at ps i) * d, snd (ps ! i) + snd (unit_at ps i) * d)"
    if "i < ?n" for i
    using that by (simp add: qs unit_at_def shrink_vertex_unit)
  have tm: "cross2 (qs ! i) (qs ! next_index ?n i)
      = cross2 (ps ! i) (ps ! next_index ?n i)
        + d * (cross2 (ps ! i) (unit_at ps (next_index ?n i)) + cross2 (unit_at ps i) (ps ! next_index ?n i))
        + d * d * cross2 (unit_at ps i) (unit_at ps (next_index ?n i))"
    if "i < ?n" for i
    using that by (simp only: nth next_index_less cross2_expand)
  have "shoelace qs = (\<Sum>i<?n. cross2 (qs ! i) (qs ! next_index ?n i))"
    using shoelace_sum[of qs] by (simp add: len)
  also have "\<dots> = (\<Sum>i<?n. cross2 (ps ! i) (ps ! next_index ?n i)
        + d * (cross2 (ps ! i) (unit_at ps (next_index ?n i)) + cross2 (unit_at ps i) (ps ! next_index ?n i))
        + d * d * cross2 (unit_at ps i) (unit_at ps (next_index ?n i)))"
    by (intro sum.cong refl) (simp add: tm)
  also have "\<dots> = shoelace ps
        + d * ((\<Sum>i<?n. cross2 (ps ! i) (unit_at ps (next_index ?n i))) + (\<Sum>i<?n. cross2 (unit_at ps i) (ps ! next_index ?n i)))
        + d * d * (\<Sum>i<?n. cross2 (unit_at ps i) (unit_at ps (next_index ?n i)))"
    by (simp only: sum.distrib sum_distrib_left[symmetric] shoelace_sum[of ps])
  also have "(\<Sum>i<?n. cross2 (ps ! i) (unit_at ps (next_index ?n i)))
           = (\<Sum>j<?n. cross2 (ps ! prev_index ?n j) (unit_at ps j))"
    by (rule sum_shift_next[where g = "\<lambda>a b. cross2 (ps ! a) (unit_at ps b)"])
  also have "(\<Sum>j<?n. cross2 (ps ! prev_index ?n j) (unit_at ps j)) + (\<Sum>i<?n. cross2 (unit_at ps i) (ps ! next_index ?n i))
           = (\<Sum>j<?n. mixed_term ps j)"
    by (simp add: mixed_term_def sum.distrib)
  finally show ?thesis .
qed

lemma or_one_eq: "v \<noteq> 0 \<Longrightarrow> or_one v = v" "or_one 0 = 1"
  by (simp_all add: or_one_def)

lemma bisector_dot:
  fixes n1x n1y n2x n2y :: real
  defines "l1 \<equiv> or_one (vec_len n1x n1y)" and "l2 \<equiv> or_one (vec_len n2x n2y)"
  defines "bx \<equiv> n1x / l1 + n2x / l2" and "by' \<equiv> n1y / l1 + n2y / l2"
  shows "0 \<le> bx * (n1x + n2x) + by' * (n1y + n2y)"
    and "bx \<noteq> 0 \<or> by' \<noteq> 0 \<Longrightarrow> 0 < bx * (n1x + n2x) + by' * (n1y + n2y)"
proof -
  define r1 where "r1 = vec_len n1x n1y"
  define r2 where "r2 = vec_len n2x n2y"
  define a1 where "a1 = n1x / l1"
  define b1 where "b1 = n1y / l1"
  define a2 where "a2 = n2x / l2"
  define b2 where "b2 = n2y / l2"
  define k1 :: real where "k1 = (if r1 = 0 then 0 else 1)"
  define k2 :: real where "k2 = (if r2 = 0 then 0 else 1)"
  have r1: "0 \<le> r1" and r2: "0 \<le> r2" by (simp_all add: r1_def r2_def vec_len_nonneg)
  have f1: "n1x = a1 * r1 \<and> n1y = b1 * r1 \<and> a1*a1 + b1*b1 = k1"
  proof (cases "r1 = 0")
    case True
    then have "n1x = 0 \<and> n1y = 0" using vec_len_zero_iff[of n1x n1y] by (simp add: r1_def)
    then show ?thesis using True by (simp add: a1_def b1_def k1_def)
  next
    case False
    then have l: "l1 = r1" by (simp add: l1_def r1_def or_one_def)
    have sq: "r1 * r1 = n1x*n1x + n1y*n1y" by (simp add: r1_def vec_len_sq)
    have "a1*a1 + b1*b1 = (n1x*n1x + n1y*n1y) / (r1*r1)"
      by (simp add: a1_def b1_def l add_divide_distrib)
    also have "\<dots> = (r1*r1) / (r1*r1)" by (simp only: sq)
    also have "\<dots> = 1" using False by simp
    finally show ?thesis using False by (simp add: a1_def b1_def k1_def l)
  qed
  have f2: "n2x = a2 * r2 \<and> n2y = b2 * r2 \<and> a2*a2 + b2*b2 = k2"
  proof (cases "r2 = 0")
    case True
    then have "n2x = 0 \<and> n2y = 0" using vec_len_zero_iff[of n2x n2y] by (simp add: r2_def)
    then show ?thesis using True by (simp add: a2_def b2_def k2_def)
  next
    case False
    then have l: "l2 = r2" by (simp add: l2_def r2_def or_one_def)
    have sq: "r2 * r2 = n2x*n2x + n2y*n2y" by (simp add: r2_def vec_len_sq)
    have "a2*a2 + b2*b2 = (n2x*n2x + n2y*n2y) / (r2*r2)"
      by (simp add: a2_def b2_def l add_divide_distrib)
    also have "\<dots> = (r2*r2) / (r2*r2)" by (simp only: sq)
    also have "\<dots> = 1" using False by simp
    finally show ?thesis using False by (simp add: a2_def b2_def k2_def l)
  qed
  define dt where "dt = a1*a2 + b1*b2"
  have rk1: "r1 * k1 = r1" and rk2: "r2 * k2 = r2" by (simp_all add: k1_def k2_def)
  have bsq: "bx*bx + by'*by' = k1 + k2 + 2 * dt"
  proof -
    have "bx*bx + by'*by' = (a1 + a2)*(a1 + a2) + (b1 + b2)*(b1 + b2)"
      by (simp add: bx_def by'_def a1_def b1_def a2_def b2_def)
    also have "\<dots> = (a1*a1 + b1*b1) + (a2*a2 + b2*b2) + 2 * dt"
      by (simp add: dt_def algebra_simps)
    finally show ?thesis using f1 f2 by simp
  qed
  have E: "bx * (n1x + n2x) + by' * (n1y + n2y) = r1 * (k1 + dt) + r2 * (k2 + dt)"
  proof -
    have "bx * (n1x + n2x) + by' * (n1y + n2y)
        = (a1 + a2) * (a1 * r1 + a2 * r2) + (b1 + b2) * (b1 * r1 + b2 * r2)"
    proof -
      have bxe: "bx = a1 + a2" "by' = b1 + b2"
        by (simp_all add: bx_def by'_def a1_def b1_def a2_def b2_def)
      have s: "n1x + n2x = a1 * r1 + a2 * r2" "n1y + n2y = b1 * r1 + b2 * r2"
        using f1 f2 by simp_all
      show ?thesis by (simp only: bxe s)
    qed
    also have "\<dots> = r1 * ((a1*a1 + b1*b1) + dt) + r2 * ((a2*a2 + b2*b2) + dt)"
      by (simp add: dt_def algebra_simps)
    finally show ?thesis using f1 f2 by simp
  qed
  have k01: "k1 = 0 \<or> k1 = 1" and k02: "k2 = 0 \<or> k2 = 1" by (simp_all add: k1_def k2_def)
  have dt0: "k1 = 0 \<Longrightarrow> dt = 0"
  proof -
    assume "k1 = 0"
    then have "a1*a1 + b1*b1 = 0" using f1 by simp
    then have "a1 = 0 \<and> b1 = 0" by (simp add: add_nonneg_eq_0_iff)
    then show "dt = 0" by (simp add: dt_def)
  qed
  have dt0': "k2 = 0 \<Longrightarrow> dt = 0"
  proof -
    assume "k2 = 0"
    then have "a2*a2 + b2*b2 = 0" using f2 by simp
    then have "a2 = 0 \<and> b2 = 0" by (simp add: add_nonneg_eq_0_iff)
    then show "dt = 0" by (simp add: dt_def)
  qed
  have bnn: "0 \<le> k1 + k2 + 2 * dt"
  proof -
    have "0 \<le> bx*bx + by'*by'" by simp
    then show ?thesis by (simp only: bsq)
  qed
  have t1: "0 \<le> r1 * (k1 + dt)"
  proof (cases "k1 = 0")
    case True
    then show ?thesis using dt0 by simp
  next
    case False
    then have k: "k1 = 1" using k01 by simp
    have "0 \<le> 1 + dt"
    proof (cases "k2 = 0")
      case True
      then show ?thesis using dt0' by simp
    next
      case False
      then have "k2 = 1" using k02 by simp
      then show ?thesis using bnn k by simp
    qed
    then show ?thesis using r1 k by simp
  qed
  have t2: "0 \<le> r2 * (k2 + dt)"
  proof (cases "k2 = 0")
    case True
    then show ?thesis using dt0' by simp
  next
    case False
    then have k: "k2 = 1" using k02 by simp
    have "0 \<le> 1 + dt"
    proof (cases "k1 = 0")
      case True
      then show ?thesis using dt0 by simp
    next
      case False
      then have "k1 = 1" using k01 by simp
      then show ?thesis using bnn k by simp
    qed
    then show ?thesis using r2 k by simp
  qed
  show "0 \<le> bx * (n1x + n2x) + by' * (n1y + n2y)"
    unfolding E using t1 t2 by simp
  assume nz: "bx \<noteq> 0 \<or> by' \<noteq> 0"
  then have "bx*bx + by'*by' \<noteq> 0" by (auto simp: add_nonneg_eq_0_iff)
  then have bpos: "0 < k1 + k2 + 2 * dt" using bnn bsq by simp
  have "0 < r1 * (k1 + dt) + r2 * (k2 + dt)"
  proof (cases "k1 = 0")
    case True
    note k1z = True
    then have d0: "dt = 0" by (rule dt0)
    with bpos True have k2p: "k2 = 1" using k02 by auto
    then have "r2 \<noteq> 0" by (auto simp: k2_def split: if_splits)
    then have "0 < r2" using r2 by simp
    then show ?thesis using k1z d0 k2p r1 by simp
  next
    case False
    then have k1p: "k1 = 1" using k01 by simp
    then have "r1 \<noteq> 0" by (auto simp: k1_def split: if_splits)
    then have r1p: "0 < r1" using r1 by simp
    show ?thesis
    proof (cases "k2 = 0")
      case True
      then have "dt = 0" by (rule dt0')
      then show ?thesis using True k1p r1p r2 by simp
    next
      case False
      then have k2p: "k2 = 1" using k02 by simp
      then have "0 < 1 + dt" using bpos k1p by simp
      then have "0 < r1 * (k1 + dt)" using r1p k1p by simp
      then show ?thesis using t2 by simp
    qed
  qed
  then show "0 < bx * (n1x + n2x) + by' * (n1y + n2y)" by (simp only: E)
qed

lemma shrink_consts_fields:
  fixes prev p nxt :: point
  defines "c \<equiv> shrink_consts prev p nxt"
  shows "sc_n1x c = snd p - snd prev" "sc_n1y c = - (fst p - fst prev)"
        "sc_n2x c = snd nxt - snd p" "sc_n2y c = - (fst nxt - fst p)"
        "sc_l1 c = or_one (vec_len (sc_n1x c) (sc_n1y c))"
        "sc_l2 c = or_one (vec_len (sc_n2x c) (sc_n2y c))"
        "sc_bx c = sc_n1x c / sc_l1 c + sc_n2x c / sc_l2 c"
        "sc_by c = sc_n1y c / sc_l1 c + sc_n2y c / sc_l2 c"
        "sc_lb c = or_one (vec_len (sc_bx c) (sc_by c))"
  unfolding c_def shrink_consts_def Let_def by (simp_all only: shrink_record.simps)

lemma cross2_pair:
  "cross2 prev (ux, uy) + cross2 (ux, uy) nxt
     = ux * (snd nxt - snd prev) + uy * (- (fst nxt - fst prev))"
  by (simp add: cross2_def algebra_simps)

lemma mixed_value:
  fixes prev p nxt :: point
  defines "c \<equiv> shrink_consts prev p nxt"
  shows "cross2 prev (bisector_unit prev p nxt) + cross2 (bisector_unit prev p nxt) nxt
       = (sc_bx c * (sc_n1x c + sc_n2x c) + sc_by c * (sc_n1y c + sc_n2y c)) / sc_lb c"
proof -
  have n: "sc_n1x c + sc_n2x c = snd nxt - snd prev" "sc_n1y c + sc_n2y c = - (fst nxt - fst prev)"
    unfolding c_def by (simp_all add: shrink_consts_fields(1-4))
  have "cross2 prev (bisector_unit prev p nxt) + cross2 (bisector_unit prev p nxt) nxt
      = (sc_bx c / sc_lb c) * (snd nxt - snd prev) + (sc_by c / sc_lb c) * (- (fst nxt - fst prev))"
    unfolding bisector_unit_def Let_def c_def by (rule cross2_pair)
  also have "\<dots> = (sc_bx c * (sc_n1x c + sc_n2x c) + sc_by c * (sc_n1y c + sc_n2y c)) / sc_lb c"
    by (simp only: n add_divide_distrib times_divide_eq_left)
  finally show ?thesis .
qed

lemma mixed_sign:
  fixes prev p nxt :: point
  defines "c \<equiv> shrink_consts prev p nxt"
  shows "0 \<le> cross2 prev (bisector_unit prev p nxt) + cross2 (bisector_unit prev p nxt) nxt"
    and "sc_bx c \<noteq> 0 \<or> sc_by c \<noteq> 0 \<Longrightarrow>
           0 < cross2 prev (bisector_unit prev p nxt) + cross2 (bisector_unit prev p nxt) nxt"
proof -
  have lb: "0 < sc_lb c"
    unfolding c_def shrink_consts_fields(9) by (rule or_one_vec_len_pos)
  have bx: "sc_bx c = sc_n1x c / or_one (vec_len (sc_n1x c) (sc_n1y c))
                     + sc_n2x c / or_one (vec_len (sc_n2x c) (sc_n2y c))"
    and by': "sc_by c = sc_n1y c / or_one (vec_len (sc_n1x c) (sc_n1y c))
                     + sc_n2y c / or_one (vec_len (sc_n2x c) (sc_n2y c))"
    unfolding c_def
    using shrink_consts_fields(7)[of prev p nxt] shrink_consts_fields(8)[of prev p nxt]
    by (simp_all only: shrink_consts_fields(5,6)[symmetric])
  note d = bisector_dot[of "sc_n1x c" "sc_n1y c" "sc_n2x c" "sc_n2y c", folded bx by']
  show "0 \<le> cross2 prev (bisector_unit prev p nxt) + cross2 (bisector_unit prev p nxt) nxt"
    unfolding mixed_value c_def[symmetric] using d(1) lb by simp
  assume "sc_bx c \<noteq> 0 \<or> sc_by c \<noteq> 0"
  then have "0 < sc_bx c * (sc_n1x c + sc_n2x c) + sc_by c * (sc_n1y c + sc_n2y c)" by (rule d(2))
  then show "0 < cross2 prev (bisector_unit prev p nxt) + cross2 (bisector_unit prev p nxt) nxt"
    unfolding mixed_value c_def[symmetric] using lb by simp
qed

lemma mixed_term_nonneg: "0 \<le> mixed_term ps j"
  unfolding mixed_term_def unit_at_def by (rule mixed_sign(1))

lemma mixed_term_pos:
  "sc_bx (vertex_consts ps j) \<noteq> 0 \<or> sc_by (vertex_consts ps j) \<noteq> 0 \<Longrightarrow> 0 < mixed_term ps j"
  unfolding mixed_term_def unit_at_def vertex_consts_def by (rule mixed_sign(2))

lemma mixed_sum_pos:
  assumes "has_corner ps"
  shows "0 < (\<Sum>j<length ps. mixed_term ps j)"
proof -
  from assms obtain j where j: "j < length ps"
      and b: "sc_bx (vertex_consts ps j) \<noteq> 0 \<or> sc_by (vertex_consts ps j) \<noteq> 0"
    by (auto simp: has_corner_def list_ex_iff)
  show ?thesis
  proof (rule sum_pos2[where i = j])
    show "finite {..<length ps}" by simp
    show "j \<in> {..<length ps}" using j by simp
    show "0 < mixed_term ps j" using b by (rule mixed_term_pos)
    show "\<And>i. i \<in> {..<length ps} \<Longrightarrow> 0 \<le> mixed_term ps i" by (rule mixed_term_nonneg)
  qed
qed

lemma signed_area_shrink:
  assumes "shrinkPolygon ps d = Inr qs"
  shows "signed_area qs = signed_area ps + d * ((\<Sum>j<length ps. mixed_term ps j) / 2)
           + d * d * ((\<Sum>i<length ps. cross2 (unit_at ps i) (unit_at ps (next_index (length ps) i))) / 2)"
  unfolding signed_area_def shoelace_shrink[OF assms] by (simp add: add_divide_distrib)

lemma small_offset_bounds:
  fixes m s d :: real
  assumes "0 < d" "d < m / (\<bar>s\<bar> + 1)"
  shows "0 < m + d * s" and "m + d * s < 2 * m"
proof -
  have "d * (\<bar>s\<bar> + 1) < m" using assms(2) by (simp add: pos_less_divide_eq)
  then have a: "d * \<bar>s\<bar> + d < m" by (simp add: algebra_simps)
  have "\<bar>d * s\<bar> = d * \<bar>s\<bar>" using assms(1) by (simp add: abs_mult)
  then have b: "- (d * \<bar>s\<bar>) \<le> d * s" "d * s \<le> d * \<bar>s\<bar>"
    using abs_ge_minus_self[of "d * s"] abs_ge_self[of "d * s"] by simp_all
  show "0 < m + d * s" using a b(1) assms(1) by linarith
  show "m + d * s < 2 * m" using a b(2) assms(1) by linarith
qed

lemma clockwise_area_shrinks:
  assumes cw: "clockwise ps" and hc: "has_corner ps"
  shows "\<exists>d0>0. \<forall>d. 0 < d \<and> d < d0 \<longrightarrow>
           (\<exists>qs. shrinkPolygon ps d = Inr qs \<and> polygon_area qs < polygon_area ps)"
proof -
  define m where "m = (\<Sum>j<length ps. mixed_term ps j) / 2"
  define s where "s = (\<Sum>i<length ps. cross2 (unit_at ps i) (unit_at ps (next_index (length ps) i))) / 2"
  define a where "a = signed_area ps"
  have m: "0 < m" using mixed_sum_pos[OF hc] by (simp add: m_def)
  have a: "a < 0" using cw by (simp add: clockwise_def a_def)
  define d0 where "d0 = min (m / (\<bar>s\<bar> + 1)) (- a / m)"
  have "0 < - a / m" using m a by (simp add: divide_neg_pos)
  then have d0: "0 < d0" using m by (simp add: d0_def)
  have "\<exists>qs. shrinkPolygon ps d = Inr qs \<and> polygon_area qs < polygon_area ps"
    if d: "0 < d" "d < d0" for d
  proof -
    obtain qs where qs: "shrinkPolygon ps d = Inr qs" by (simp add: shrinkPolygon_eq)
    have A: "signed_area qs = a + d * (m + d * s)"
      using signed_area_shrink[OF qs] by (simp add: m_def s_def a_def algebra_simps)
    from d have d1: "d < m / (\<bar>s\<bar> + 1)" and d2: "d < - a / m" by (simp_all add: d0_def)
    note b = small_offset_bounds[OF d(1) d1]
    have lo: "0 < d * (m + d * s)" using d(1) b(1) by simp
    have "d * (m + d * s) < d * (2 * m)" using d(1) b(2) by simp
    also have "\<dots> = 2 * (d * m)" by simp
    also have "d * m < - a" using d2 m pos_less_divide_eq[of m d "- a"] by simp
    finally have hi: "d * (m + d * s) < - 2 * a" by simp
    have "\<bar>signed_area qs\<bar> < - a" unfolding A using lo hi a by (simp add: abs_less_iff)
    then have "polygon_area qs < polygon_area ps"
      using a by (simp add: polygon_area_def a_def)
    with qs show ?thesis by blast
  qed
  with d0 show ?thesis by blast
qed

lemma counter_clockwise_area_grows:
  assumes ccw: "counter_clockwise ps" and hc: "has_corner ps"
  shows "\<exists>d0>0. \<forall>d. 0 < d \<and> d < d0 \<longrightarrow>
           (\<exists>qs. shrinkPolygon ps d = Inr qs \<and> polygon_area ps < polygon_area qs)"
proof -
  define m where "m = (\<Sum>j<length ps. mixed_term ps j) / 2"
  define s where "s = (\<Sum>i<length ps. cross2 (unit_at ps i) (unit_at ps (next_index (length ps) i))) / 2"
  define a where "a = signed_area ps"
  have m: "0 < m" using mixed_sum_pos[OF hc] by (simp add: m_def)
  have a: "0 < a" using ccw by (simp add: counter_clockwise_def a_def)
  define d0 where "d0 = m / (\<bar>s\<bar> + 1)"
  have d0: "0 < d0" using m by (simp add: d0_def)
  have "\<exists>qs. shrinkPolygon ps d = Inr qs \<and> polygon_area ps < polygon_area qs"
    if d: "0 < d" "d < d0" for d
  proof -
    obtain qs where qs: "shrinkPolygon ps d = Inr qs" by (simp add: shrinkPolygon_eq)
    have A: "signed_area qs = a + d * (m + d * s)"
      using signed_area_shrink[OF qs] by (simp add: m_def s_def a_def algebra_simps)
    from d have d1: "d < m / (\<bar>s\<bar> + 1)" by (simp add: d0_def)
    note b = small_offset_bounds[OF d(1) d1]
    have lo: "0 < d * (m + d * s)" using d(1) b(1) by simp
    have "polygon_area ps < polygon_area qs"
      unfolding polygon_area_def A a_def[symmetric] using lo a by simp
    with qs show ?thesis by blast
  qed
  with d0 show ?thesis by blast
qed

lemma rectangle_has_corner:
  assumes "0 < w" "0 < h"
  shows "has_corner (cw_rectangle x y w h)"
proof -
  have "sc_bx (vertex_consts (cw_rectangle x y w h) 0) = 1"
    using assms
    by (simp add: vertex_consts_def cw_rectangle_def prev_index_def next_index_def
          shrink_consts_def Let_def vec_len_def or_one_def)
  then have "sc_bx (vertex_consts (cw_rectangle x y w h) 0) \<noteq> 0" by simp
  moreover have "length (cw_rectangle x y w h) = 4" by (simp add: cw_rectangle_def)
  ultimately show ?thesis
    unfolding has_corner_def by (simp add: upt_rec[of 0 4])
qed

text \<open>
  C1, as the code has it. \<open>shrinkPolygon\<close> returns a polygon with one vertex for each
  input vertex. A vertex whose two incident edges have non-zero length and whose
  bisector is non-zero is moved by exactly the offset distance \<open>d\<close>, along the
  normalised sum of the two unit normals \<open>(e\<^sub>y, -e\<^sub>x)\<close>, which point to the right of the
  direction of travel (the inside of a clockwise polygon). Its distance from the lines
  through its two incident edges is \<open>d lb / 2\<close>, where \<open>lb \<le> 2\<close> is the length of that sum
  and \<open>lb\<^sup>2 = 2 + 2 cos \<theta>\<close> for the turning angle \<open>\<theta>\<close>: at most \<open>d\<close>, and
  \<open>d cos (\<theta> / 2)\<close>, not at least \<open>d (1 - \<epsilon>)\<close>. For every clockwise polygon (convex or
  not) that has a vertex with a non-zero bisector there is a bound \<open>d0 > 0\<close> such that
  for every \<open>0 < d < d0\<close> the area of the result is strictly smaller than the area of
  the input. For a clockwise axis-aligned rectangle of sides \<open>w\<close> and \<open>h\<close> the bound can
  be taken as \<open>d \<surd>2 \<le> min w h\<close>: the result is the rectangle inset by \<open>d / \<surd>2\<close> on every
  side, of area \<open>(w - d \<surd>2) (h - d \<surd>2) < w h\<close>.
\<close>

theorem offset_moves_vertex_along_bisector:
  "(prev \<noteq> p \<and> nxt \<noteq> p
      \<and> (sc_bx (shrink_consts prev p nxt), sc_by (shrink_consts prev p nxt)) \<noteq> (0, 0) \<longrightarrow>
        vec_len (fst (shrink_vertex prev p nxt d) - fst p) (snd (shrink_vertex prev p nxt d) - snd p) = \<bar>d\<bar>
      \<and> dist_line (shrink_vertex prev p nxt d) (prev, p) = \<bar>d\<bar> * (sc_lb (shrink_consts prev p nxt) / 2)
      \<and> dist_line (shrink_vertex prev p nxt d) (p, nxt) = \<bar>d\<bar> * (sc_lb (shrink_consts prev p nxt) / 2)
      \<and> side_of (prev, p) (shrink_vertex prev p nxt d)
           = - (d * sc_l1 (shrink_consts prev p nxt) * sc_lb (shrink_consts prev p nxt) / 2)
      \<and> side_of (p, nxt) (shrink_vertex prev p nxt d)
           = - (d * sc_l2 (shrink_consts prev p nxt) * sc_lb (shrink_consts prev p nxt) / 2)
      \<and> 0 < sc_lb (shrink_consts prev p nxt)
      \<and> sc_lb (shrink_consts prev p nxt) / 2 \<le> 1
      \<and> sc_lb (shrink_consts prev p nxt) * sc_lb (shrink_consts prev p nxt)
           = 2 + 2 * ((sc_e1x (shrink_consts prev p nxt) * sc_e2x (shrink_consts prev p nxt)
                        + sc_e1y (shrink_consts prev p nxt) * sc_e2y (shrink_consts prev p nxt))
                      / (sc_l1 (shrink_consts prev p nxt) * sc_l2 (shrink_consts prev p nxt))))
   \<and> shrinkPolygon ps d
        = Inr (map (\<lambda>i. shrink_vertex (ps ! prev_index (length ps) i) (ps ! i)
                                       (ps ! next_index (length ps) i) d) [0..<length ps])
   \<and> (0 < w \<and> 0 < h \<and> 0 < d \<and> d * sqrt 2 \<le> min w h \<longrightarrow>
        clockwise (cw_rectangle x y w h) \<and> convex_polygon (cw_rectangle x y w h)
      \<and> shrinkPolygon (cw_rectangle x y w h) d
           = Inr (cw_rectangle (x + d / sqrt 2) (y + d / sqrt 2) (w - d * sqrt 2) (h - d * sqrt 2))
      \<and> polygon_area (cw_rectangle (x + d / sqrt 2) (y + d / sqrt 2) (w - d * sqrt 2) (h - d * sqrt 2))
           = (w - d * sqrt 2) * (h - d * sqrt 2)
      \<and> polygon_area (cw_rectangle x y w h) = w * h
      \<and> (w - d * sqrt 2) * (h - d * sqrt 2) < w * h)
   \<and> (clockwise ps \<and> has_corner ps \<longrightarrow>
        (\<exists>d0>0. \<forall>d'. 0 < d' \<and> d' < d0 \<longrightarrow>
           (\<exists>qs. shrinkPolygon ps d' = Inr qs \<and> polygon_area qs < polygon_area ps)))"
proof (intro conjI impI)
  assume a: "prev \<noteq> p \<and> nxt \<noteq> p
      \<and> (sc_bx (shrink_consts prev p nxt), sc_by (shrink_consts prev p nxt)) \<noteq> (0, 0)"
  then have np: "prev \<noteq> p" and nn: "nxt \<noteq> p"
    and nb: "sc_bx (shrink_consts prev p nxt) \<noteq> 0 \<or> sc_by (shrink_consts prev p nxt) \<noteq> 0"
    by auto
  note r = shrink_vertex_offset[OF np nn nb]
  show "vec_len (fst (shrink_vertex prev p nxt d) - fst p) (snd (shrink_vertex prev p nxt d) - snd p) = \<bar>d\<bar>"
    by (rule r(1))
  show "dist_line (shrink_vertex prev p nxt d) (prev, p) = \<bar>d\<bar> * (sc_lb (shrink_consts prev p nxt) / 2)"
    by (rule r(4))
  show "dist_line (shrink_vertex prev p nxt d) (p, nxt) = \<bar>d\<bar> * (sc_lb (shrink_consts prev p nxt) / 2)"
    by (rule r(5))
  show "side_of (prev, p) (shrink_vertex prev p nxt d)
           = - (d * sc_l1 (shrink_consts prev p nxt) * sc_lb (shrink_consts prev p nxt) / 2)"
    by (rule r(2))
  show "side_of (p, nxt) (shrink_vertex prev p nxt d)
           = - (d * sc_l2 (shrink_consts prev p nxt) * sc_lb (shrink_consts prev p nxt) / 2)"
    by (rule r(3))
  show "0 < sc_lb (shrink_consts prev p nxt)" by (rule r(6))
  show "sc_lb (shrink_consts prev p nxt) / 2 \<le> 1" using r(7) by simp
  show "sc_lb (shrink_consts prev p nxt) * sc_lb (shrink_consts prev p nxt)
           = 2 + 2 * ((sc_e1x (shrink_consts prev p nxt) * sc_e2x (shrink_consts prev p nxt)
                        + sc_e1y (shrink_consts prev p nxt) * sc_e2y (shrink_consts prev p nxt))
                      / (sc_l1 (shrink_consts prev p nxt) * sc_l2 (shrink_consts prev p nxt)))"
    by (rule r(8))
next
  show "shrinkPolygon ps d
        = Inr (map (\<lambda>i. shrink_vertex (ps ! prev_index (length ps) i) (ps ! i)
                                       (ps ! next_index (length ps) i) d) [0..<length ps])"
    by (rule shrinkPolygon_eq)
next
  assume a: "0 < w \<and> 0 < h \<and> 0 < d \<and> d * sqrt 2 \<le> min w h"
  then have w: "0 < w" and h: "0 < h" and d: "0 < d" and m: "d * sqrt 2 \<le> min w h" by auto
  show "clockwise (cw_rectangle x y w h)" by (rule rectangle_clockwise_convex(1)[OF w h])
  show "convex_polygon (cw_rectangle x y w h)" by (rule rectangle_clockwise_convex(2)[OF w h])
  show "shrinkPolygon (cw_rectangle x y w h) d
           = Inr (cw_rectangle (x + d / sqrt 2) (y + d / sqrt 2) (w - d * sqrt 2) (h - d * sqrt 2))"
    by (rule shrink_rectangle[OF w h])
  show "polygon_area (cw_rectangle (x + d / sqrt 2) (y + d / sqrt 2) (w - d * sqrt 2) (h - d * sqrt 2))
           = (w - d * sqrt 2) * (h - d * sqrt 2)"
    by (rule rectangle_area_shrinks(1)[OF w h d m])
  show "polygon_area (cw_rectangle x y w h) = w * h"
    by (rule rectangle_area_shrinks(2)[OF w h d m])
  show "(w - d * sqrt 2) * (h - d * sqrt 2) < w * h"
    by (rule rectangle_area_shrinks(3)[OF w h d m])
next
  assume "clockwise ps \<and> has_corner ps"
  then show "\<exists>d0>0. \<forall>d'. 0 < d' \<and> d' < d0 \<longrightarrow>
           (\<exists>qs. shrinkPolygon ps d' = Inr qs \<and> polygon_area qs < polygon_area ps)"
    using clockwise_area_shrinks[of ps] by simp
qed

theorem offset_moves_vertex_along_bisector_witness:
  "((0, 0) :: point) \<noteq> (0, 25) \<and> ((24, 18) :: point) \<noteq> (0, 25)
   \<and> sc_bx (shrink_consts (0, 0) (0, 25) (24, 18)) = 18 / 25
   \<and> shrink_vertex (0, 0) (0, 25) (24, 18) 5 = (3, 21)
   \<and> dist_line (3, 21) ((0, 0), (0, 25)) = 3
   \<and> dist_line (3, 21) ((0, 25), (24, 18)) = 3
   \<and> (0 :: real) < 4 \<and> (0 :: real) < 2 \<and> (0 :: real) < 1 \<and> 1 * sqrt 2 \<le> min 4 2
   \<and> shrinkPolygon (cw_rectangle 0 0 4 2) 1
        = Inr (cw_rectangle (0 + 1 / sqrt 2) (0 + 1 / sqrt 2) (4 - 1 * sqrt 2) (2 - 1 * sqrt 2))
   \<and> polygon_area (cw_rectangle (0 + 1 / sqrt 2) (0 + 1 / sqrt 2) (4 - 1 * sqrt 2) (2 - 1 * sqrt 2))
        < polygon_area (cw_rectangle 0 0 4 2)
   \<and> clockwise (cw_rectangle 0 0 4 2) \<and> has_corner (cw_rectangle 0 0 4 2)
   \<and> (\<exists>d0>0. \<forall>d'. 0 < d' \<and> d' < d0 \<longrightarrow>
         (\<exists>qs. shrinkPolygon (cw_rectangle 0 0 4 2) d' = Inr qs
               \<and> polygon_area qs < polygon_area (cw_rectangle 0 0 4 2)))"
proof -
  have h1: "((0, 0) :: point) \<noteq> (0, 25)" "((24, 18) :: point) \<noteq> (0, 25)" by simp_all
  have h2: "(sc_bx (shrink_consts (0, 0) (0, 25) (24, 18)), sc_by (shrink_consts (0, 0) (0, 25) (24, 18))) \<noteq> (0, 0)"
    by (simp add: triangle_consts)
  have h3: "(0 :: real) < 4 \<and> (0 :: real) < 2 \<and> (0 :: real) < 1 \<and> 1 * sqrt 2 \<le> min 4 2"
    using sqrt2_le_2 by simp
  note t = offset_moves_vertex_along_bisector
      [where prev = "(0, 0)" and p = "(0, 25)" and nxt = "(24, 18)" and d = 5 and ps = "[]"
         and x = 0 and y = 0 and w = 1 and h = 1]
  note u = offset_moves_vertex_along_bisector
      [where x = 0 and y = 0 and w = 4 and h = 2 and d = 1 and ps = "[]"
         and prev = "(0, 0)" and p = "(0, 0)" and nxt = "(0, 0)"]
  note v = offset_moves_vertex_along_bisector
      [where x = 0 and y = 0 and w = 4 and h = 2 and d = 1 and ps = "cw_rectangle 0 0 4 2"
         and prev = "(0, 0)" and p = "(0, 0)" and nxt = "(0, 0)"]
  have d1: "dist_line (3, 21) ((0, 0), (0, 25)) = 3" "dist_line (3, 21) ((0, 25), (24, 18)) = 3"
    using t h1 h2 by (simp_all add: triangle_vertex_1 triangle_consts)
  have r: "shrinkPolygon (cw_rectangle 0 0 4 2) 1
        = Inr (cw_rectangle (0 + 1 / sqrt 2) (0 + 1 / sqrt 2) (4 - 1 * sqrt 2) (2 - 1 * sqrt 2))"
     "polygon_area (cw_rectangle (0 + 1 / sqrt 2) (0 + 1 / sqrt 2) (4 - 1 * sqrt 2) (2 - 1 * sqrt 2))
        < polygon_area (cw_rectangle 0 0 4 2)"
    using u h3 by simp_all
  have cw: "clockwise (cw_rectangle 0 0 4 2)" and hc: "has_corner (cw_rectangle 0 0 4 2)"
    by (simp_all add: rectangle_clockwise_convex(1) rectangle_has_corner)
  have sm: "\<exists>d0>0. \<forall>d'. 0 < d' \<and> d' < d0 \<longrightarrow>
         (\<exists>qs. shrinkPolygon (cw_rectangle 0 0 4 2) d' = Inr qs
               \<and> polygon_area qs < polygon_area (cw_rectangle 0 0 4 2))"
    using v cw hc by blast
  show ?thesis
    using h1 h3 d1 r cw hc sm by (simp add: triangle_consts triangle_vertex_1)
qed

text \<open>
  C1, as the claim states it, fails on a convex clockwise triangle with \<open>d = 5\<close> and
  tolerance \<open>1/10\<close>: the vertex \<open>(0, 25)\<close> moves to \<open>(3, 21)\<close>, at distance 3 from the
  edge on the line \<open>x = 0\<close>, and \<open>3 < 5 (1 - 1/10)\<close>.
\<close>

theorem offset_claim_counterexample:
  "convex_polygon [(0, 0), (0, 25), (24, 18)] \<and> clockwise [(0, 0), (0, 25), (24, 18)]
   \<and> (0::real) < 5 \<and> \<not> offset_shrinks (1 / 10) [(0, 0), (0, 25), (24, 18)] 5"
proof -
  have cv: "convex_polygon [(0, 0), (0, 25), (24, 18)]"
    by (simp add: convex_polygon_def polygon_edges_def side_of_def signed_area_def shoelace_def cross2_def)
  have cw: "clockwise [(0, 0), (0, 25), (24, 18)]"
    by (simp add: clockwise_def signed_area_def shoelace_def cross2_def)
  have near: "nearest_edge_dist [(0, 0), (0, 25), (24, 18)] (3, 21) \<le> 3"
    unfolding nearest_edge_dist_def polygon_edges_def
    using min_list_real_le_hd[of "dist_segment (3, 21) ((0, 0), (0, 25))"]
    by (simp add: triangle_dist)
  have "\<not> offset_shrinks (1 / 10) [(0, 0), (0, 25), (24, 18)] 5"
    unfolding offset_shrinks_def shrinkPolygon_eq
    using near by (simp add: upt_0_3 prev_index_def next_index_def triangle_vertex_1)
  with cv cw show ?thesis by simp
qed

text \<open>
  Beyond the bound the area need not shrink: the clockwise unit square offset by 2 is
  turned inside out into a larger square.
\<close>

lemma offset_too_far:
  "shrinkPolygon (cw_rectangle 0 0 1 1) 2
     = Inr (cw_rectangle (2 / sqrt 2) (2 / sqrt 2) (1 - 2 * sqrt 2) (1 - 2 * sqrt 2))
   \<and> polygon_area (cw_rectangle 0 0 1 1)
       < polygon_area (cw_rectangle (2 / sqrt 2) (2 / sqrt 2) (1 - 2 * sqrt 2) (1 - 2 * sqrt 2))"
proof -
  have s: "shrinkPolygon (cw_rectangle 0 0 1 1) 2
     = Inr (cw_rectangle (2 / sqrt 2) (2 / sqrt 2) (1 - 2 * sqrt 2) (1 - 2 * sqrt 2))"
    using shrink_rectangle[of 1 1 0 0 2] by simp
  have "(1 - 2 * sqrt 2) * (1 - 2 * sqrt 2) = 9 - 4 * sqrt 2"
    by (simp add: algebra_simps)
  moreover have "sqrt 2 < 2" by (rule real_less_lsqrt) simp_all
  ultimately have "1 < (1 - 2 * sqrt 2) * (1 - 2 * sqrt 2)" by simp
  then have "polygon_area (cw_rectangle 0 0 1 1)
       < polygon_area (cw_rectangle (2 / sqrt 2) (2 / sqrt 2) (1 - 2 * sqrt 2) (1 - 2 * sqrt 2))"
    by (simp add: polygon_area_def signed_area_rectangle)
  with s show ?thesis by simp
qed

text \<open>
  On the silhouette itself, which runs counter-clockwise, the bottom-left corner
  \<open>(0, 0)\<close> is moved by the trim width \<open>1.5\<close> to a point with negative coordinates:
  away from the outline, not into it.
\<close>

lemma jersey_trim_corner:
  "\<exists>qs. shrinkPolygon (jerseyPoints style) (3 / 2) = Inr qs \<and> length qs = 13
        \<and> hd qs = (- ((3 / 2) / sqrt 2), - ((3 / 2) / sqrt 2))"
proof -
  have n: "length (jerseyPoints style) = 13" by (simp add: jerseyPoints_def Let_def)
  have p0: "jerseyPoints style ! 0 = (0, 0)" by (simp add: jerseyPoints_def Let_def)
  have p1: "jerseyPoints style ! Suc 0 = (100, 0)" by (simp add: jerseyPoints_def Let_def)
  have p12: "jerseyPoints style ! 12 = (0, if style = JStr ''Retro'' then 102 else 106)"
    by (simp add: jerseyPoints_def Let_def)
  have v: "shrink_vertex (0, k) (0, 0) (100, 0) d = (- (d / sqrt 2), - (d / sqrt 2))" if "0 < k" for k d :: real
    using that by (simp add: shrink_vertex_def shrink_consts_def Let_def vec_len_def or_one_def)
  have u: "[0..<13] = 0 # [1..<13]" by (simp add: upt_rec)
  show ?thesis
    unfolding shrinkPolygon_eq n u
    by (simp add: prev_index_def next_index_def p0 p1 p12 v del: upt_Suc)
qed

text \<open>
  The armhole vertices of the silhouette, where the outline runs down and straight back
  up, have a zero bisector and stay where they are; the other way round, the outline
  has vertices with a non-zero bisector, and being counter-clockwise its area grows
  under every sufficiently small positive offset.
\<close>

lemma jersey_armhole_fixed:
  "sc_bx (vertex_consts (jerseyPoints style) 4) = 0
   \<and> sc_by (vertex_consts (jerseyPoints style) 4) = 0
   \<and> sc_lb (vertex_consts (jerseyPoints style) 4) = 1
   \<and> sc_bx (vertex_consts (jerseyPoints style) 10) = 0
   \<and> sc_by (vertex_consts (jerseyPoints style) 10) = 0
   \<and> sc_lb (vertex_consts (jerseyPoints style) 10) = 1
   \<and> unit_at (jerseyPoints style) 4 = (0, 0) \<and> unit_at (jerseyPoints style) 10 = (0, 0)"
  by (simp add: vertex_consts_def unit_at_def bisector_unit_def jerseyPoints_def Let_def
        prev_index_def next_index_def shrink_consts_def vec_len_def or_one_def)

lemma jersey_has_corner: "has_corner (jerseyPoints style)"
proof -
  have n: "length (jerseyPoints style) = 13" by (simp add: jerseyPoints_def Let_def)
  have p0: "jerseyPoints style ! 0 = (0, 0)" by (simp add: jerseyPoints_def Let_def)
  have p1: "jerseyPoints style ! Suc 0 = (100, 0)" by (simp add: jerseyPoints_def Let_def)
  have p12: "jerseyPoints style ! 12 = (0, if style = JStr ''Retro'' then 102 else 106)"
    by (simp add: jerseyPoints_def Let_def)
  have "sc_bx (vertex_consts (jerseyPoints style) 0) = - 1"
    by (simp add: vertex_consts_def n prev_index_def next_index_def p0 p1 p12
          shrink_consts_def Let_def vec_len_def or_one_def)
  then have "sc_bx (vertex_consts (jerseyPoints style) 0) \<noteq> 0" by simp
  then show ?thesis
    unfolding has_corner_def n by (simp add: upt_rec[of 0 13])
qed

lemma jersey_trim_grows:
  "\<exists>d0>0. \<forall>d. 0 < d \<and> d < d0 \<longrightarrow>
     (\<exists>qs. shrinkPolygon (jerseyPoints style) d = Inr qs
           \<and> polygon_area (jerseyPoints style) < polygon_area qs)"
  using counter_clockwise_area_grows[OF _ jersey_has_corner, of style]
  by (simp add: jerseyPoints_def Let_def counter_clockwise_def signed_area_def shoelace_def cross2_def)

section \<open>Properties of text building, display and export\<close>

lemma trim_empty_iff: "trim s = [] \<longleftrightarrow> whitespace_only s"
proof
  assume "whitespace_only s"
  then have "dropWhile js_whitespace s = []"
    unfolding whitespace_only_def by (induction s) auto
  then show "trim s = []" unfolding trim_def by (simp only: rev.simps dropWhile.simps)
next
  assume t: "trim s = []"
  have "dropWhile js_whitespace s = []"
  proof (rule ccontr)
    assume n: "dropWhile js_whitespace s \<noteq> []"
    then have h: "\<not> js_whitespace (hd (dropWhile js_whitespace s))" by (rule hd_dropWhile)
    let ?r = "dropWhile js_whitespace s"
    from t have "dropWhile js_whitespace (rev ?r) = []" by (simp add: trim_def)
    then have "\<forall>x\<in>set (rev ?r). js_whitespace x" by (simp only: dropWhile_eq_Nil_conv)
    moreover have "hd ?r \<in> set (rev ?r)" using n by simp
    ultimately show False using h by blast
  qed
  then have "\<forall>x\<in>set s. js_whitespace x" by (simp only: dropWhile_eq_Nil_conv)
  then show "whitespace_only s" by (simp add: whitespace_only_def list_all_iff)
qed

lemma trim_whitespace_only: "whitespace_only s \<Longrightarrow> trim s = []"
proof -
  assume "whitespace_only s"
  then have "dropWhile js_whitespace s = []"
    unfolding whitespace_only_def by (induction s) auto
  then show ?thesis unfolding trim_def by (simp only: rev.simps dropWhile.simps)
qed

lemma buildText_blank: "whitespace_only text \<Longrightarrow> buildText jscad fnt text opts = None"
  by (simp add: buildText_def trim_whitespace_only Let_def)

lemma load_absent:
  "region_geom geometries rid = None \<Longrightarrow>
     meshMap (foldl (load_region geometries colorMap) st rs) rid = meshMap st rid"
  by (induction rs arbitrary: st) (auto simp: load_region_def Let_def split: option.splits)

lemma load_group:
  "length (modelGroup (foldl (load_region geometries colorMap) st rs)) =
     length (modelGroup st) + length (filter (\<lambda>r. region_geom geometries (region_id r) \<noteq> None) rs)"
  by (induction rs arbitrary: st) (auto simp: load_region_def Let_def split: option.splits)

lemma export_loop_names:
  "map filename (export_loop serialize dsg geometries rs) =
     map (\<lambda>r. design_id dsg @ ''__'' @ region_id r @ ''.stl'')
         (filter (\<lambda>r. region_geom geometries (region_id r) \<noteq> None) rs)"
  by (induction rs) (auto simp: exportRegionSTL_def Let_def split: option.splits)

lemma export_loop_absent:
  assumes "region_geom geometries rid = None"
  shows "design_id dsg @ ''__'' @ rid @ ''.stl'' \<notin> set (map filename (export_loop serialize dsg geometries rs))"
  using assms unfolding export_loop_names by auto

lemma generate_number:
  "generate jscad fnt up inp = Inr geos \<Longrightarrow>
    region_geom geos ''number'' = buildText jscad fnt (numStr inp)
                  \<lparr>opt_size = Some 28, opt_z = Some (or_default (baseThickness inp) 3), opt_height = Some 2,
                   opt_centerX = Some 50, opt_centerY = Some 68\<rparr>
  \<and> region_geom geos ''name'' = buildText jscad fnt (nameStr up inp)
                  \<lparr>opt_size = Some 10, opt_z = Some (or_default (baseThickness inp) 3), opt_height = Some 2,
                   opt_centerX = Some 50, opt_centerY = Some 26\<rparr>"
  by (auto simp: generate_def Let_def region_geom_def split: sum.splits if_splits option.splits)

lemma numStr_blank: "numStr blank_inputs = ''  ''"
  by (simp add: numStr_def blank_inputs_def or_default_def substring0_def)

lemma two_spaces_blank: "whitespace_only ''  ''"
  by (simp add: whitespace_only_def js_whitespace_def)

lemma nameStr_blank: "nameStr ascii_toUpperCase blank_inputs = '' ''"
  unfolding nameStr_def blank_inputs_def or_default_def substring0_def ascii_toUpperCase_def
  by code_simp

lemma generate_blank:
  "\<exists>geos. generate sample_jscad sample_font ascii_toUpperCase blank_inputs = Inr geos"
  by (simp add: generate_def Let_def blank_inputs_def or_default_def buildBody_def
        sample_jscad_def jerseyPoints_def)

text \<open>
  C6. For an empty or whitespace-only text, \<open>buildText\<close> returns \<open>null\<close> before it looks
  at the font. When the number (or the name) that \<open>generate\<close> renders is blank, the
  region map it returns holds no geometry for that region. A region without geometry
  gets no entry in the viewer's mesh map, and \<open>loadGeometries\<close> adds one mesh for each
  region that has geometry and none for the others. \<open>exportAllSTL\<close> returns normally
  and downloads one file \<open><design>__<region>.stl\<close> for each region that has geometry,
  none for a region without.
\<close>

theorem blank_text_no_geometry:
  "(whitespace_only str \<longrightarrow> buildText jscad fnt str opts = None)
   \<and> (whitespace_only (numStr inp) \<and> generate jscad fnt up inp = Inr geos
        \<longrightarrow> region_geom geos ''number'' = None)
   \<and> (whitespace_only (nameStr up inp) \<and> generate jscad fnt up inp = Inr geos
        \<longrightarrow> region_geom geos ''name'' = None)
   \<and> (region_geom geometries rid = None \<longrightarrow>
         meshMap (loadGeometries geometries regions colorMap) rid = None)
   \<and> length (modelGroup (loadGeometries geometries regions colorMap))
        = length (filter (\<lambda>r. region_geom geometries (region_id r) \<noteq> None) regions)
   \<and> (gen inp' = Inr geometries \<longrightarrow>
        (\<exists>ds. exportAllSTL gen serialize dsg inp' = Inr ds
           \<and> map filename ds
               = map (\<lambda>r. design_id dsg @ ''__'' @ region_id r @ ''.stl'')
                     (filter (\<lambda>r. region_geom geometries (region_id r) \<noteq> None) (colorRegions dsg))
           \<and> (region_geom geometries rid = None \<longrightarrow>
                 design_id dsg @ ''__'' @ rid @ ''.stl'' \<notin> set (map filename ds))))"
proof (intro conjI impI)
  assume "whitespace_only str"
  then show "buildText jscad fnt str opts = None" by (rule buildText_blank)
next
  assume "whitespace_only (numStr inp) \<and> generate jscad fnt up inp = Inr geos"
  then show "region_geom geos ''number'' = None"
    using generate_number[of jscad fnt up inp geos] by (simp add: buildText_blank)
next
  assume "whitespace_only (nameStr up inp) \<and> generate jscad fnt up inp = Inr geos"
  then show "region_geom geos ''name'' = None"
    using generate_number[of jscad fnt up inp geos] by (simp add: buildText_blank)
next
  assume "region_geom geometries rid = None"
  then show "meshMap (loadGeometries geometries regions colorMap) rid = None"
    by (simp add: loadGeometries_def load_absent)
next
  show "length (modelGroup (loadGeometries geometries regions colorMap))
        = length (filter (\<lambda>r. region_geom geometries (region_id r) \<noteq> None) regions)"
    by (simp add: loadGeometries_def load_group)
next
  assume g: "gen inp' = Inr geometries"
  show "\<exists>ds. exportAllSTL gen serialize dsg inp' = Inr ds
           \<and> map filename ds
               = map (\<lambda>r. design_id dsg @ ''__'' @ region_id r @ ''.stl'')
                     (filter (\<lambda>r. region_geom geometries (region_id r) \<noteq> None) (colorRegions dsg))
           \<and> (region_geom geometries rid = None \<longrightarrow>
                 design_id dsg @ ''__'' @ rid @ ''.stl'' \<notin> set (map filename ds))"
  proof (intro exI conjI impI)
    show "exportAllSTL gen serialize dsg inp'
            = Inr (export_loop serialize dsg geometries (colorRegions dsg))"
      by (simp add: exportAllSTL_def g)
    show "map filename (export_loop serialize dsg geometries (colorRegions dsg))
               = map (\<lambda>r. design_id dsg @ ''__'' @ region_id r @ ''.stl'')
                     (filter (\<lambda>r. region_geom geometries (region_id r) \<noteq> None) (colorRegions dsg))"
      by (rule export_loop_names)
    assume "region_geom geometries rid = None"
    then show "design_id dsg @ ''__'' @ rid @ ''.stl''
                 \<notin> set (map filename (export_loop serialize dsg geometries (colorRegions dsg)))"
      by (rule export_loop_absent)
  qed
qed

theorem blank_text_no_geometry_witness:
  "whitespace_only ''  ''
   \<and> buildText sample_jscad sample_font ''  ''
        \<lparr>opt_size = None, opt_z = None, opt_height = None, opt_centerX = None, opt_centerY = None\<rparr> = None
   \<and> whitespace_only (numStr blank_inputs)
   \<and> whitespace_only (nameStr ascii_toUpperCase blank_inputs)
   \<and> (\<exists>geos. generate sample_jscad sample_font ascii_toUpperCase blank_inputs = Inr geos
         \<and> region_geom geos ''number'' = None
         \<and> region_geom geos ''name'' = None
         \<and> meshMap (loadGeometries geos (colorRegions basketball_jersey) Map.empty) ''number'' = None
         \<and> (\<exists>ds. exportAllSTL (generate sample_jscad sample_font ascii_toUpperCase)
                    (spec_serialize [] (\<lambda>solids. [])) basketball_jersey blank_inputs = Inr ds
               \<and> ''basketball-jersey__number.stl'' \<notin> set (map filename ds)))"
proof -
  obtain geos where g: "generate sample_jscad sample_font ascii_toUpperCase blank_inputs = Inr geos"
    using generate_blank by blast
  have w1: "whitespace_only ''  ''" by (rule two_spaces_blank)
  have w2: "whitespace_only (numStr blank_inputs)" by (simp add: numStr_blank two_spaces_blank)
  have w3: "whitespace_only (nameStr ascii_toUpperCase blank_inputs)"
    by (simp add: nameStr_blank whitespace_only_def js_whitespace_def)
  have d: "design_id basketball_jersey = ''basketball-jersey''" by (simp add: basketball_jersey_def)
  from blank_text_no_geometry
    [where str = "''  ''" and jscad = sample_jscad and fnt = sample_font
       and opts = "\<lparr>opt_size = None, opt_z = None, opt_height = None, opt_centerX = None, opt_centerY = None\<rparr>"
       and inp = blank_inputs and up = ascii_toUpperCase and geos = geos
       and geometries = geos and rid = "''number''" and regions = "colorRegions basketball_jersey"
       and colorMap = Map.empty and gen = "generate sample_jscad sample_font ascii_toUpperCase"
       and inp' = blank_inputs and serialize = "spec_serialize [] (\<lambda>solids. [])"
       and dsg = basketball_jersey]
  show ?thesis
    using g w1 w2 w3 by (auto simp: d)
qed

lemma length_substring0: "length (substring0 s n) \<le> n"
  by (simp add: substring0_def)

lemma generate_depends_on_strings:
  assumes "numStr inp = numStr inp'" "nameStr up inp = nameStr up inp'"
          "jerseyStyle inp = jerseyStyle inp'" "showTrim inp = showTrim inp'"
          "baseThickness inp = baseThickness inp'"
  shows "generate jscad fnt up inp = generate jscad fnt up inp'"
  unfolding generate_def assms by (rule refl)

text \<open>Where upper-casing works character by character and never deletes a character
  (one character may become several), the name is already decided by the first 14
  characters of \<open>String(playerName)\<close>.\<close>

lemma take_take_le: "j \<le> m \<Longrightarrow> take m xs = take m ys \<Longrightarrow> take j xs = take j ys"
proof -
  assume j: "j \<le> m" and e: "take m xs = take m ys"
  have "take j xs = take j (take m xs)" using j by (simp add: min_def)
  also have "\<dots> = take j (take m ys)" by (simp only: e)
  also have "\<dots> = take j ys" using j by (simp add: min_def)
  finally show ?thesis .
qed

lemma take_concat_map:
  assumes "\<And>c. f c \<noteq> []"
  shows "take n (concat (map f s)) = take n (concat (map f (take n s)))"
proof (induction s arbitrary: n)
  case Nil
  then show ?case by simp
next
  case (Cons c cs)
  show ?case
  proof (cases n)
    case 0
    then show ?thesis by simp
  next
    case (Suc m)
    have j: "Suc m - length (f c) \<le> m" using assms[of c] by (cases "f c") simp_all
    have "take (Suc m - length (f c)) (concat (map f cs))
        = take (Suc m - length (f c)) (concat (map f (take m cs)))"
      using j Cons.IH[of m] by (rule take_take_le)
    then show ?thesis using Suc by simp
  qed
qed

lemma nameStr_per_character:
  assumes "\<And>c. f c \<noteq> []"
  shows "nameStr (\<lambda>s. concat (map f s)) inp
       = take 14 (concat (map f (take 14 (js_String (or_default (playerName inp) (JStr ''SMITH''))))))"
  unfolding nameStr_def substring0_def
  by (rule take_concat_map) (rule assms)

text \<open>
  C10. The number that \<open>generate\<close> renders is the first 2 characters of
  \<open>String(number)\<close>, and the name is the first 14 characters of the upper-cased
  \<open>String(playerName)\<close>; longer values are cut, values that are not strings are turned
  into strings and not rejected, and two inputs that agree on these characters give
  the same result.
\<close>

theorem number_and_name_truncated:
  "numStr inp = take 2 (js_String (or_default (number inp) (JStr ''23'')))
   \<and> length (numStr inp) \<le> 2
   \<and> nameStr up inp = take 14 (up (js_String (or_default (playerName inp) (JStr ''SMITH''))))
   \<and> length (nameStr up inp) \<le> 14
   \<and> (generate jscad fnt up inp = Inr geos \<longrightarrow>
        region_geom geos ''number''
          = buildText jscad fnt (take 2 (js_String (or_default (number inp) (JStr ''23''))))
              \<lparr>opt_size = Some 28, opt_z = Some (or_default (baseThickness inp) 3),
               opt_height = Some 2, opt_centerX = Some 50, opt_centerY = Some 68\<rparr>
      \<and> region_geom geos ''name''
          = buildText jscad fnt (take 14 (up (js_String (or_default (playerName inp) (JStr ''SMITH'')))))
              \<lparr>opt_size = Some 10, opt_z = Some (or_default (baseThickness inp) 3),
               opt_height = Some 2, opt_centerX = Some 50, opt_centerY = Some 26\<rparr>)
   \<and> (take 2 (js_String a) = take 2 (js_String b) \<longrightarrow>
        generate jscad fnt up (inp\<lparr>number := Some a\<rparr>) = generate jscad fnt up (inp\<lparr>number := Some b\<rparr>))
   \<and> (take 14 (up (js_String a)) = take 14 (up (js_String b)) \<longrightarrow>
        generate jscad fnt up (inp\<lparr>playerName := Some a\<rparr>)
          = generate jscad fnt up (inp\<lparr>playerName := Some b\<rparr>))"
proof (intro conjI impI)
  show n: "numStr inp = take 2 (js_String (or_default (number inp) (JStr ''23'')))"
    by (simp add: numStr_def substring0_def)
  show "length (numStr inp) \<le> 2" by (simp add: numStr_def length_substring0)
  show m: "nameStr up inp = take 14 (up (js_String (or_default (playerName inp) (JStr ''SMITH''))))"
    by (simp add: nameStr_def substring0_def)
  show "length (nameStr up inp) \<le> 14" by (simp add: nameStr_def length_substring0)
next
  assume g: "generate jscad fnt up inp = Inr geos"
  show "region_geom geos ''number''
          = buildText jscad fnt (take 2 (js_String (or_default (number inp) (JStr ''23''))))
              \<lparr>opt_size = Some 28, opt_z = Some (or_default (baseThickness inp) 3),
               opt_height = Some 2, opt_centerX = Some 50, opt_centerY = Some 68\<rparr>"
    using generate_number[OF g] by (simp add: numStr_def substring0_def)
  show "region_geom geos ''name''
          = buildText jscad fnt (take 14 (up (js_String (or_default (playerName inp) (JStr ''SMITH'')))))
              \<lparr>opt_size = Some 10, opt_z = Some (or_default (baseThickness inp) 3),
               opt_height = Some 2, opt_centerX = Some 50, opt_centerY = Some 26\<rparr>"
    using generate_number[OF g] by (simp add: nameStr_def substring0_def)
next
  assume "take 2 (js_String a) = take 2 (js_String b)"
  then show "generate jscad fnt up (inp\<lparr>number := Some a\<rparr>) = generate jscad fnt up (inp\<lparr>number := Some b\<rparr>)"
    by (intro generate_depends_on_strings)
       (simp_all add: numStr_def nameStr_def substring0_def or_default_def)
next
  assume "take 14 (up (js_String a)) = take 14 (up (js_String b))"
  then show "generate jscad fnt up (inp\<lparr>playerName := Some a\<rparr>)
          = generate jscad fnt up (inp\<lparr>playerName := Some b\<rparr>)"
    by (intro generate_depends_on_strings)
       (simp_all add: numStr_def nameStr_def substring0_def or_default_def)
qed

lemma digits_123: "digits 123 = ''123''"
  by code_simp

lemma upper_long: "ascii_toUpperCase ''Antetokounmpo-Smith'' = ''ANTETOKOUNMPO-SMITH''"
  unfolding ascii_toUpperCase_def by code_simp

lemma upper_long2: "ascii_toUpperCase ''antetokounmpo-Jones'' = ''ANTETOKOUNMPO-JONES''"
  unfolding ascii_toUpperCase_def by code_simp

lemma upper_true: "ascii_toUpperCase ''true'' = ''TRUE''"
  unfolding ascii_toUpperCase_def by code_simp

theorem number_and_name_truncated_witness:
  "numStr (blank_inputs\<lparr>number := Some (JInt 123)\<rparr>) = ''12''
   \<and> nameStr ascii_toUpperCase (blank_inputs\<lparr>playerName := Some (JBool True)\<rparr>) = ''TRUE''
   \<and> nameStr ascii_toUpperCase (blank_inputs\<lparr>playerName := Some (JStr ''Antetokounmpo-Smith'')\<rparr>)
        = ''ANTETOKOUNMPO-''
   \<and> take 2 (js_String (JInt 123)) = take 2 (js_String (JStr ''12''))
   \<and> generate sample_jscad sample_font ascii_toUpperCase (blank_inputs\<lparr>number := Some (JInt 123)\<rparr>)
        = generate sample_jscad sample_font ascii_toUpperCase (blank_inputs\<lparr>number := Some (JStr ''12'')\<rparr>)
   \<and> take 14 (ascii_toUpperCase (js_String (JStr ''Antetokounmpo-Smith'')))
        = take 14 (ascii_toUpperCase (js_String (JStr ''antetokounmpo-Jones'')))
   \<and> generate sample_jscad sample_font ascii_toUpperCase
          (blank_inputs\<lparr>playerName := Some (JStr ''Antetokounmpo-Smith'')\<rparr>)
        = generate sample_jscad sample_font ascii_toUpperCase
          (blank_inputs\<lparr>playerName := Some (JStr ''antetokounmpo-Jones'')\<rparr>)
   \<and> (\<exists>geos. generate sample_jscad sample_font ascii_toUpperCase blank_inputs = Inr geos
         \<and> region_geom geos ''number''
             = buildText sample_jscad sample_font ''  ''
                 \<lparr>opt_size = Some 28, opt_z = Some 3, opt_height = Some 2,
                  opt_centerX = Some 50, opt_centerY = Some 68\<rparr>)"
proof -
  obtain geos where g: "generate sample_jscad sample_font ascii_toUpperCase blank_inputs = Inr geos"
    using generate_blank by blast
  have e1: "take 2 (js_String (JInt 123)) = take 2 (js_String (JStr ''12''))"
    by (simp add: digits_123)
  have e2: "take 14 (ascii_toUpperCase (js_String (JStr ''Antetokounmpo-Smith'')))
        = take 14 (ascii_toUpperCase (js_String (JStr ''antetokounmpo-Jones'')))"
    by (simp add: upper_long upper_long2)
  have s: "number blank_inputs = Some (JStr ''  '')" "baseThickness blank_inputs = Some 3"
    by (simp_all add: blank_inputs_def)
  note t1 = number_and_name_truncated
    [where inp = "blank_inputs\<lparr>number := Some (JInt 123)\<rparr>" and up = ascii_toUpperCase
       and jscad = sample_jscad and fnt = sample_font and a = "JInt 123" and b = "JStr ''12''"]
  note t2 = number_and_name_truncated
    [where inp = "blank_inputs\<lparr>playerName := Some (JBool True)\<rparr>" and up = ascii_toUpperCase
       and jscad = sample_jscad and fnt = sample_font]
  note t3 = number_and_name_truncated
    [where inp = "blank_inputs\<lparr>playerName := Some (JStr ''Antetokounmpo-Smith'')\<rparr>"
       and up = ascii_toUpperCase and jscad = sample_jscad and fnt = sample_font
       and a = "JStr ''Antetokounmpo-Smith''" and b = "JStr ''antetokounmpo-Jones''"]
  note t4 = number_and_name_truncated
    [where inp = blank_inputs and up = ascii_toUpperCase and jscad = sample_jscad
       and fnt = sample_font and geos = geos]
  have a1: "numStr (blank_inputs\<lparr>number := Some (JInt 123)\<rparr>) = ''12''"
    using t1 by (simp add: or_default_def digits_123)
  have a2: "nameStr ascii_toUpperCase (blank_inputs\<lparr>playerName := Some (JBool True)\<rparr>) = ''TRUE''"
    using t2 by (simp add: or_default_def upper_true)
  have a3: "nameStr ascii_toUpperCase (blank_inputs\<lparr>playerName := Some (JStr ''Antetokounmpo-Smith'')\<rparr>)
        = ''ANTETOKOUNMPO-''"
    using t3 by (simp add: or_default_def upper_long)
  have a4: "generate sample_jscad sample_font ascii_toUpperCase (blank_inputs\<lparr>number := Some (JInt 123)\<rparr>)
        = generate sample_jscad sample_font ascii_toUpperCase (blank_inputs\<lparr>number := Some (JStr ''12'')\<rparr>)"
    using t1 e1 by simp
  have a5: "generate sample_jscad sample_font ascii_toUpperCase
          (blank_inputs\<lparr>playerName := Some (JStr ''Antetokounmpo-Smith'')\<rparr>)
        = generate sample_jscad sample_font ascii_toUpperCase
          (blank_inputs\<lparr>playerName := Some (JStr ''antetokounmpo-Jones'')\<rparr>)"
    using t3 e2 by simp
  have a6: "region_geom geos ''number''
             = buildText sample_jscad sample_font ''  ''
                 \<lparr>opt_size = Some 28, opt_z = Some 3, opt_height = Some 2,
                  opt_centerX = Some 50, opt_centerY = Some 68\<rparr>"
    using t4 g by (simp add: s or_default_def)
  show ?thesis using a1 a2 a3 a4 a5 a6 e1 e2 g by blast
qed

end
